(* ===== verification/KV_Prelude.thy ===== *)
theory KV_Prelude
  imports Main "HOL-Library.Word" "HOL-Library.AList" "HOL-Library.Multiset"
begin

text \<open>
  Shared vocabulary of the development.  Go's \<open>string\<close> and \<open>[]byte\<close> are both byte sequences
  and are modelled by HOL's \<open>char list\<close> (a HOL \<open>char\<close> is one byte).  Go's \<open>uint64\<close> is
  \<open>64 word\<close>.  Go's 64-bit \<open>int\<close> is a HOL \<open>int\<close> on which every addition or subtraction that
  can leave the range is wrapped by \<open>go_int\<close>.  A \<open>time.Time\<close> is the number of nanoseconds
  since the zero time, so the zero time is 0, and a \<open>time.Duration\<close> is a number of nanoseconds.

  The theory also holds the collections of rules that the component theories
  extend and the list facts that several components share.
\<close>

section \<open>Types\<close>

type_synonym bytes = string
type_synonym key = string
type_synonym time = int
type_synonym duration = int
type_synonym uint64 = "64 word"

definition MaxKeyBytes :: nat where
  "MaxKeyBytes = 250"

section \<open>Rule collections\<close>

named_theorems written \<open>what writes to an open connection append to its stream\<close>
named_theorems honest_writes \<open>writes that report an error leave the writer failed\<close>

section \<open>Signed 64-bit integers\<close>

definition go_int :: "int \<Rightarrow> int" where
  "go_int x = (x + 2 ^ 63) mod 2 ^ 64 - 2 ^ 63"

definition int64_range :: "int \<Rightarrow> bool" where
  "int64_range x \<longleftrightarrow> - (2 ^ 63) \<le> x \<and> x < 2 ^ 63"

lemma go_int_id: "- (2 ^ 63) \<le> x \<Longrightarrow> x < 2 ^ 63 \<Longrightarrow> go_int x = x"
  unfolding go_int_def by simp

lemma go_int_over: "2 ^ 63 \<le> x \<Longrightarrow> x < 2 ^ 63 + 2 ^ 64 \<Longrightarrow> go_int x = x - 2 ^ 64"
proof -
  assume x: "2 ^ 63 \<le> x" "x < 2 ^ 63 + 2 ^ 64"
  have "(x + 2 ^ 63) mod 2 ^ 64 = (x - 2 ^ 63 + 2 ^ 64) mod 2 ^ 64" by (simp add: add.commute)
  also have "\<dots> = (x - 2 ^ 63) mod 2 ^ 64" by (rule mod_add_self2)
  also have "\<dots> = x - 2 ^ 63" using x by (intro mod_pos_pos_trivial) auto
  finally show ?thesis by (simp add: go_int_def)
qed

lemma go_int_range: "int64_range (go_int x)"
  unfolding go_int_def int64_range_def by simp

definition maxInt64 :: int where
  "maxInt64 = 2 ^ 63 - 1"

definition maxUint64 :: uint64 where
  "maxUint64 = - 1"

lemma word_succ_gt: "n \<noteq> maxUint64 \<Longrightarrow> n < n + 1"
proof -
  assume "n \<noteq> maxUint64"
  then have "1 + n \<noteq> 0" by (simp add: maxUint64_def add_eq_0_iff)
  then show ?thesis by (simp add: word_less_nat_alt unatSuc add.commute)
qed

section \<open>Lists\<close>

lemma sum_list_remove1_int:
  fixes f :: "'a \<Rightarrow> int"
  shows "a \<in> set xs \<Longrightarrow> sum_list (map f (remove1 a xs)) = sum_list (map f xs) - f a"
  by (induction xs) auto

lemma sum_list_nonneg_mem:
  fixes f :: "'a \<Rightarrow> int"
  shows "\<forall>x\<in>set xs. 0 \<le> f x \<Longrightarrow> a \<in> set xs \<Longrightarrow> f a \<le> sum_list (map f xs)"
proof (induction xs)
  case (Cons b xs)
  have "0 \<le> sum_list (map f xs)"
    using Cons.prems(1) by (intro sum_list_nonneg) auto
  with Cons show ?case by auto
qed simp

lemma sum_list_filter_le:
  fixes f :: "'a \<Rightarrow> int"
  shows "\<forall>x\<in>set xs. 0 \<le> f x \<Longrightarrow> sum_list (map f (filter P xs)) \<le> sum_list (map f xs)"
  by (induction xs) auto

lemma map_of_eq_Some_iff_mem:
  "distinct (map fst xs) \<Longrightarrow> map_of xs k = Some v \<longleftrightarrow> (k, v) \<in> set xs"
  by (rule map_of_eq_Some_iff)

lemma find_filter: "find P (filter Q xs) = find (\<lambda>x. Q x \<and> P x) xs"
  by (induction xs) auto

lemma find_SomeD: "find P xs = Some x \<Longrightarrow> x \<in> set xs \<and> P x"
  by (induction xs) (auto split: if_splits)

lemma remove1_filter_neq: "distinct xs \<Longrightarrow> remove1 a xs = filter (\<lambda>x. x \<noteq> a) xs"
  by (simp add: distinct_remove1_removeAll removeAll_filter_not_eq) (metis (full_types))

lemma remove1_filter_inj:
  assumes "distinct (map f xs)" "a \<in> set xs"
  shows "remove1 a xs = filter (\<lambda>x. f x \<noteq> f a) xs"
proof -
  have "inj_on f (set xs)" "distinct xs" using assms(1) by (simp_all add: distinct_map)
  then have "filter (\<lambda>x. f x \<noteq> f a) xs = filter (\<lambda>x. x \<noteq> a) xs"
    using assms(2) by (intro filter_cong) (auto dest: inj_onD)
  with \<open>distinct xs\<close> show ?thesis by (simp add: remove1_filter_neq)
qed

lemma length_filter_remove1:
  "a \<in> set xs \<Longrightarrow>
   int (length (filter P (remove1 a xs))) = int (length (filter P xs)) - (if P a then 1 else 0)"
  by (induction xs) auto

end
