(* ===== verification/Lru.thy ===== *)
theory Lru
  imports KV_Prelude
begin

text \<open>
  The intrusive doubly-linked list of \<open>internal/store/lru.go\<close>.  A \<open>*storedItem\<close> is an address
  into a heap of \<open>storedItem\<close> records; \<open>nil\<close> is \<open>None\<close>.  The list operations rewrite the
  \<open>prev\<close> and \<open>next\<close> pointers in the order in which the Go code does.

  The relation \<open>dll h l xs\<close> says that the heap \<open>h\<close> and the list header \<open>l\<close> represent the
  sequence of addresses \<open>xs\<close>, most recently used first.  The locale \<open>recency_list\<close> states what
  a client of such a list relies on; it is interpreted on the pointer operations.
\<close>

section \<open>Items and the heap\<close>

type_synonym addr = nat

text \<open>The payload of a \<open>storedItem\<close>; the record of the Go struct extends it by its two links.\<close>

record entry =
  si_key :: key
  si_value :: bytes
  si_expiresAt :: time
  si_size :: int
  si_cas :: uint64

record storedItem = entry +
  si_prev :: "addr option"
  si_next :: "addr option"

type_synonym heap = "addr \<Rightarrow> storedItem"

record lruList =
  lru_head :: "addr option"
  lru_tail :: "addr option"

definition set_prev :: "addr \<Rightarrow> addr option \<Rightarrow> heap \<Rightarrow> heap" where
  "set_prev a p h = h(a := (h a)\<lparr>si_prev := p\<rparr>)"

definition set_next :: "addr \<Rightarrow> addr option \<Rightarrow> heap \<Rightarrow> heap" where
  "set_next a n h = h(a := (h a)\<lparr>si_next := n\<rparr>)"

definition payload :: "heap \<Rightarrow> addr \<Rightarrow> entry" where
  "payload h a = entry.truncate (h a)"

section \<open>The list operations\<close>

definition pushFront :: "addr \<Rightarrow> heap \<times> lruList \<Rightarrow> heap \<times> lruList" where
  "pushFront item = (\<lambda>(h, l).
     let h = set_prev item None h;
         h = set_next item (lru_head l) h;
         h = (case lru_head l of None \<Rightarrow> h | Some b \<Rightarrow> set_prev b (Some item) h);
         l = l\<lparr>lru_head := Some item\<rparr>;
         l = (if lru_tail l = None then l\<lparr>lru_tail := Some item\<rparr> else l)
     in (h, l))"

definition remove :: "addr \<Rightarrow> heap \<times> lruList \<Rightarrow> heap \<times> lruList" where
  "remove item = (\<lambda>(h, l).
     let (h, l) = (case si_prev (h item) of
                     Some p \<Rightarrow> (set_next p (si_next (h item)) h, l)
                   | None \<Rightarrow> (h, l\<lparr>lru_head := si_next (h item)\<rparr>));
         (h, l) = (case si_next (h item) of
                     Some n \<Rightarrow> (set_prev n (si_prev (h item)) h, l)
                   | None \<Rightarrow> (h, l\<lparr>lru_tail := si_prev (h item)\<rparr>));
         h = set_prev item None h;
         h = set_next item None h
     in (h, l))"

definition moveToFront :: "addr \<Rightarrow> heap \<times> lruList \<Rightarrow> heap \<times> lruList" where
  "moveToFront item = (\<lambda>(h, l).
     if lru_head l = Some item then (h, l) else pushFront item (remove item (h, l)))"

definition lru_back :: "heap \<times> lruList \<Rightarrow> addr option" where
  "lru_back = (\<lambda>(h, l). lru_tail l)"

text \<open>
  Following links from \<open>c\<close> while \<open>P\<close> holds: the inner loop of \<open>evictUntilFitsLocked\<close>.  A cyclic
  chain would never end, so the loop has fuel and running out of it is \<open>None\<close>.
\<close>

fun skipWhile :: "nat \<Rightarrow> ('a \<Rightarrow> bool) \<Rightarrow> ('a \<Rightarrow> 'a option) \<Rightarrow> 'a option \<Rightarrow> 'a option option" where
  "skipWhile 0 P link c = None"
| "skipWhile (Suc n) P link c =
     (case c of None \<Rightarrow> Some None
      | Some a \<Rightarrow> if P a then skipWhile n P link (link a) else Some (Some a))"

section \<open>Heap and header as a sequence of addresses\<close>

fun first_or :: "'a list \<Rightarrow> 'a option \<Rightarrow> 'a option" where
  "first_or [] q = q"
| "first_or (a # as) q = Some a"

fun last_or :: "'a option \<Rightarrow> 'a list \<Rightarrow> 'a option" where
  "last_or p [] = p"
| "last_or p (a # as) = last_or (Some a) as"

fun dseg :: "heap \<Rightarrow> addr option \<Rightarrow> addr list \<Rightarrow> addr option \<Rightarrow> bool" where
  "dseg h p [] q = True"
| "dseg h p (a # as) q \<longleftrightarrow>
     si_prev (h a) = p \<and> si_next (h a) = first_or as q \<and> dseg h (Some a) as q"

definition dll :: "heap \<times> lruList \<Rightarrow> addr list \<Rightarrow> bool" where
  "dll s xs \<longleftrightarrow> distinct xs \<and> lru_head (snd s) = first_or xs None
     \<and> lru_tail (snd s) = last_or None xs \<and> dseg (fst s) None xs None"

lemma first_or_append [simp]: "first_or (xs @ ys) q = first_or xs (first_or ys q)"
  by (cases xs) auto

lemma last_or_append [simp]: "last_or p (xs @ ys) = last_or (last_or p xs) ys"
  by (induction xs arbitrary: p) auto

lemma last_or_Some [simp]: "last_or (Some a) xs \<noteq> None"
  by (induction xs arbitrary: a) auto

lemma last_or_None_iff [simp]: "last_or p xs = None \<longleftrightarrow> xs = [] \<and> p = None"
  by (cases xs) auto

lemma first_or_None_iff [simp]: "first_or xs q = None \<longleftrightarrow> xs = [] \<and> q = None"
  by (cases xs) auto

lemma last_or_mem: "last_or None xs = Some a \<Longrightarrow> a \<in> set xs"
proof (induction xs rule: rev_induct)
  case (snoc x xs)
  then show ?case by simp
qed simp

lemma dseg_append [simp]:
  "dseg h p (xs @ ys) q \<longleftrightarrow> dseg h p xs (first_or ys q) \<and> dseg h (last_or p xs) ys q"
  by (induction xs arbitrary: p) auto

lemma dseg_upd [simp]: "a \<notin> set xs \<Longrightarrow> dseg (h(a := i)) p xs q = dseg h p xs q"
  by (induction xs arbitrary: p) auto

lemma dseg_set_prev [simp]: "a \<notin> set xs \<Longrightarrow> dseg (set_prev a i h) p xs q = dseg h p xs q"
  by (simp add: set_prev_def)

lemma dseg_set_next [simp]: "a \<notin> set xs \<Longrightarrow> dseg (set_next a i h) p xs q = dseg h p xs q"
  by (simp add: set_next_def)

lemma set_prev_simps [simp]:
  "si_prev (set_prev a p h b) = (if b = a then p else si_prev (h b))"
  "si_next (set_prev a p h b) = si_next (h b)"
  "si_prev (set_next a p h b) = si_prev (h b)"
  "si_next (set_next a p h b) = (if b = a then p else si_next (h b))"
  by (auto simp: set_prev_def set_next_def)

lemma payload_link [simp]:
  "payload (set_prev a p h) b = payload h b"
  "payload (set_next a p h) b = payload h b"
  by (auto simp: payload_def set_prev_def set_next_def entry.truncate_def)

text \<open>Changing only payloads keeps the list.\<close>

lemma dseg_cong:
  "\<forall>a\<in>set xs. si_prev (h' a) = si_prev (h a) \<and> si_next (h' a) = si_next (h a) \<Longrightarrow>
   dseg h' p xs q = dseg h p xs q"
  by (induction xs arbitrary: p) auto

lemma dll_cong:
  "\<forall>a\<in>set xs. si_prev (h' a) = si_prev (h a) \<and> si_next (h' a) = si_next (h a) \<Longrightarrow>
   dll (h', l) xs = dll (h, l) xs"
  using dseg_cong [of xs h' h None None] by (simp add: dll_def)

text \<open>Redirecting the last \<open>next\<close> or the first \<open>prev\<close> of a segment.\<close>

lemma dseg_snoc_next:
  assumes "dseg h p (xs @ [a]) q" "a \<notin> set xs"
  shows "dseg (set_next a q' h) p (xs @ [a]) q'"
  using assms by simp

lemma dseg_Cons_prev:
  assumes "dseg h p (a # xs) q" "a \<notin> set xs"
  shows "dseg (set_prev a p' h) p' (a # xs) q"
  using assms by simp

lemma dll_pushFront:
  assumes "dll s xs" "a \<notin> set xs"
  shows "dll (pushFront a s) (a # xs)"
proof (cases s)
  case (Pair h l)
  show ?thesis
  proof (cases xs)
    case Nil
    then show ?thesis using assms Pair
      by (auto simp: dll_def pushFront_def Let_def)
  next
    case (Cons b ys)
    with assms Pair have "a \<noteq> b" "a \<notin> set ys" "b \<notin> set ys" "lru_head l = Some b"
        "lru_tail l \<noteq> None" "dseg h None (b # ys) None" "distinct (b # ys)"
        "lru_tail l = last_or (Some b) ys"
      by (auto simp: dll_def)
    then show ?thesis using Cons Pair
      by (auto simp: dll_def pushFront_def Let_def)
  qed
qed

lemma payload_pushFront [simp]: "payload (fst (pushFront a s)) b = payload (fst s) b"
  by (cases s) (auto simp: pushFront_def Let_def split: option.split)

lemma payload_remove [simp]: "payload (fst (remove a s)) b = payload (fst s) b"
  by (cases s) (auto simp: remove_def Let_def split: option.split)

lemma payload_moveToFront [simp]: "payload (fst (moveToFront a s)) b = payload (fst s) b"
  by (cases s) (auto simp: moveToFront_def)

lemma payload_fields [simp]:
  "si_key (payload h a) = si_key (h a)" "si_value (payload h a) = si_value (h a)"
  "si_expiresAt (payload h a) = si_expiresAt (h a)" "si_size (payload h a) = si_size (h a)"
  "si_cas (payload h a) = si_cas (h a)"
  by (simp_all add: payload_def entry.truncate_def)

lemma payload_eqD:
  assumes "payload h a = payload h' b"
  shows "si_key (h a) = si_key (h' b)" "si_value (h a) = si_value (h' b)"
    "si_expiresAt (h a) = si_expiresAt (h' b)" "si_size (h a) = si_size (h' b)"
    "si_cas (h a) = si_cas (h' b)"
  using assms by (metis payload_fields)+

lemmas link_fields [simp] =
  payload_pushFront [THEN payload_eqD(1)] payload_pushFront [THEN payload_eqD(2)]
  payload_pushFront [THEN payload_eqD(3)] payload_pushFront [THEN payload_eqD(4)]
  payload_pushFront [THEN payload_eqD(5)]
  payload_remove [THEN payload_eqD(1)] payload_remove [THEN payload_eqD(2)]
  payload_remove [THEN payload_eqD(3)] payload_remove [THEN payload_eqD(4)]
  payload_remove [THEN payload_eqD(5)]
  payload_moveToFront [THEN payload_eqD(1)] payload_moveToFront [THEN payload_eqD(2)]
  payload_moveToFront [THEN payload_eqD(3)] payload_moveToFront [THEN payload_eqD(4)]
  payload_moveToFront [THEN payload_eqD(5)]

lemma dll_remove_split:
  assumes "dll s (xs @ a # ys)"
  shows "dll (remove a s) (xs @ ys)"
proof -
  obtain h l where s: "s = (h, l)" by (cases s)
  consider "xs = []" "ys = []" | x us where "xs = us @ [x]" "ys = []"
    | y vs where "xs = []" "ys = y # vs" | x us y vs where "xs = us @ [x]" "ys = y # vs"
    by (metis list.exhaust rev_exhaust)
  then show ?thesis
  proof cases
    case 1
    then show ?thesis using assms s by (auto simp: dll_def remove_def Let_def)
  next
    case 2
    then show ?thesis using assms s by (auto simp: dll_def remove_def Let_def)
  next
    case 3
    then show ?thesis using assms s by (auto simp: dll_def remove_def Let_def)
  next
    case 4
    then show ?thesis using assms s by (auto simp: dll_def remove_def Let_def)
  qed
qed

lemma dll_remove:
  assumes "dll s xs" "a \<in> set xs"
  shows "dll (remove a s) (remove1 a xs)"
proof -
  obtain us vs where xs: "xs = us @ a # vs" and "a \<notin> set us"
    using split_list_first [OF assms(2)] by auto
  then have "remove1 a xs = us @ vs" by (simp add: remove1_append)
  with assms(1) xs show ?thesis by (simp add: dll_remove_split)
qed

lemma dll_distinct: "dll s xs \<Longrightarrow> distinct xs"
  by (simp add: dll_def)

lemma dll_moveToFront:
  assumes "dll s xs" "a \<in> set xs"
  shows "dll (moveToFront a s) (a # remove1 a xs)"
proof (cases "lru_head (snd s) = Some a")
  case True
  then obtain ys where "xs = a # ys" using assms
    by (cases xs) (auto simp: dll_def)
  with True assms(1) show ?thesis by (cases s) (simp add: moveToFront_def)
next
  case False
  have "distinct xs" using assms(1) by (rule dll_distinct)
  then have "dll (pushFront a (remove a s)) (a # remove1 a xs)"
    using assms by (intro dll_pushFront dll_remove) auto
  with False show ?thesis by (cases s) (simp add: moveToFront_def)
qed

lemma dll_back: "dll s xs \<Longrightarrow> lru_back s = last_or None xs"
  by (cases s) (simp add: dll_def lru_back_def)

lemma dll_prev:
  assumes "dll s (xs @ a # ys)"
  shows "si_prev (fst s a) = last_or None xs"
  using assms by (simp add: dll_def)

text \<open>The sequence that a heap and a header represent, read off along the \<open>next\<close> links.\<close>

fun walk :: "nat \<Rightarrow> heap \<Rightarrow> addr option \<Rightarrow> addr list" where
  "walk 0 h p = []"
| "walk (Suc n) h p = (case p of None \<Rightarrow> [] | Some a \<Rightarrow> a # walk n h (si_next (h a)))"

lemma walk_dseg: "dseg h p xs None \<Longrightarrow> length xs \<le> n \<Longrightarrow> walk n h (first_or xs None) = xs"
proof (induction xs arbitrary: p n)
  case Nil
  then show ?case by (cases n) auto
next
  case (Cons a xs)
  then show ?case by (cases n) auto
qed

lemma walk_dll: "dll (h, l) xs \<Longrightarrow> length xs \<le> n \<Longrightarrow> walk n h (lru_head l) = xs"
  by (auto simp: dll_def walk_dseg)

section \<open>What a client of the list relies on\<close>

locale recency_list =
  fixes repr :: "'s \<Rightarrow> 'a list \<Rightarrow> bool"
    and push :: "'a \<Rightarrow> 's \<Rightarrow> 's"
    and drop_item :: "'a \<Rightarrow> 's \<Rightarrow> 's"
    and touch :: "'a \<Rightarrow> 's \<Rightarrow> 's"
    and oldest :: "'s \<Rightarrow> 'a option"
    and newer :: "'s \<Rightarrow> 'a \<Rightarrow> 'a option"
  assumes repr_distinct: "repr s xs \<Longrightarrow> distinct xs"
    and repr_push: "repr s xs \<Longrightarrow> a \<notin> set xs \<Longrightarrow> repr (push a s) (a # xs)"
    and repr_drop: "repr s xs \<Longrightarrow> a \<in> set xs \<Longrightarrow> repr (drop_item a s) (remove1 a xs)"
    and repr_touch: "repr s xs \<Longrightarrow> a \<in> set xs \<Longrightarrow> repr (touch a s) (a # remove1 a xs)"
    and repr_oldest: "repr s xs \<Longrightarrow> oldest s = last_or None xs"
    and repr_newer: "repr s (xs @ a # ys) \<Longrightarrow> newer s a = last_or None xs"
begin

lemma skip_from:
  "repr s (xs @ ys) \<Longrightarrow> length xs < n \<Longrightarrow>
   skipWhile n P (newer s) (last_or None xs) = Some (find (\<lambda>a. \<not> P a) (rev xs))"
proof (induction xs arbitrary: ys n rule: rev_induct)
  case Nil
  then show ?case by (cases n) auto
next
  case (snoc a xs)
  then obtain m where n: "n = Suc m" "length xs < m" by (cases n) auto
  have "repr s (xs @ a # ys)" using snoc.prems(1) by simp
  moreover from this have "newer s a = last_or None xs" by (rule repr_newer)
  ultimately show ?case using n snoc.IH [of "a # ys" m] by simp
qed

lemma skip_oldest:
  assumes "repr s xs" "length xs < n"
  shows "skipWhile n P (newer s) (oldest s) = Some (find (\<lambda>a. \<not> P a) (rev xs))"
  using skip_from [of s xs "[]" n P] assms by (simp add: repr_oldest)

lemma drop_many:
  "repr s xs \<Longrightarrow> distinct as \<Longrightarrow> set as \<subseteq> set xs \<Longrightarrow>
   repr (fold drop_item as s) (filter (\<lambda>x. x \<notin> set as) xs)"
proof (induction as arbitrary: s xs)
  case (Cons a as)
  have d: "distinct xs" using Cons.prems(1) by (rule repr_distinct)
  have "repr (drop_item a s) (remove1 a xs)" using Cons.prems by (simp add: repr_drop)
  moreover have "set as \<subseteq> set (remove1 a xs)" using Cons.prems d by auto
  ultimately have "repr (fold drop_item as (drop_item a s)) (filter (\<lambda>x. x \<notin> set as) (remove1 a xs))"
    using Cons by simp
  also have "filter (\<lambda>x. x \<notin> set as) (remove1 a xs) = filter (\<lambda>x. x \<notin> set (a # as)) xs"
    by (simp add: remove1_filter_neq [OF d] conj_commute)
  finally show ?case by simp
qed simp

end

interpretation lru: recency_list dll pushFront remove moveToFront lru_back "\<lambda>s a. si_prev (fst s a)"
  by unfold_locales
    (auto simp: dll_distinct dll_pushFront dll_remove dll_moveToFront dll_back dll_prev)

lemma skipWhile_stops: "skipWhile i P l p = Some (Some a) \<Longrightarrow> \<not> P a"
  by (induction i arbitrary: p) (auto split: option.splits if_splits)

declare skipWhile.simps [simp del]

end
