(* ===== verification/Go_Strconv.thy ===== *)
theory Go_Strconv
  imports KV_Prelude
begin

text \<open>
  The decimal conversions of Go's \<open>strconv\<close> and \<open>fmt\<close> packages that the program calls:
  \<open>ParseUint(s, 10, 64)\<close>, \<open>Atoi\<close>, \<open>FormatUint(n, 10)\<close> and the \<open>%d\<close> verb.  \<open>ParseUint\<close> is the
  library's loop over 64-bit words with its two overflow tests; \<open>parseUint_eq\<close> shows that it
  computes the decimal value of the digits exactly when that value fits.
\<close>

section \<open>Digits\<close>

abbreviation byte :: "char \<Rightarrow> nat" where
  "byte c \<equiv> of_char c"

definition isDigit :: "char \<Rightarrow> bool" where
  "isDigit c \<longleftrightarrow> 48 \<le> byte c \<and> byte c \<le> 57"

definition digitVal :: "char \<Rightarrow> nat" where
  "digitVal c = byte c - 48"

definition digitChar :: "nat \<Rightarrow> char" where
  "digitChar d = char_of (48 + d)"

fun decVal :: "nat \<Rightarrow> string \<Rightarrow> nat" where
  "decVal n [] = n"
| "decVal n (c # cs) = decVal (10 * n + digitVal c) cs"

lemma digit_digitChar [simp]:
  "d < 10 \<Longrightarrow> isDigit (digitChar d)" "d < 10 \<Longrightarrow> digitVal (digitChar d) = d"
  by (auto simp: isDigit_def digitVal_def digitChar_def)

lemma digitVal_less: "isDigit c \<Longrightarrow> digitVal c < 10"
  by (auto simp: isDigit_def digitVal_def)

lemma decVal_append [simp]: "decVal n (xs @ ys) = decVal (decVal n xs) ys"
  by (induction xs arbitrary: n) auto

lemma decVal_mono: "n \<le> decVal n cs"
proof (induction cs arbitrary: n)
  case (Cons c cs)
  have "n \<le> 10 * n + digitVal c" by simp
  also have "\<dots> \<le> decVal (10 * n + digitVal c) cs" by (rule Cons.IH)
  finally show ?case by simp
qed simp

lemma unat_less64: "unat (w :: uint64) < 2 ^ 64"
  using unsigned_less [of w, where ?'a = nat] by simp

section \<open>ParseUint\<close>

datatype num_error = ErrSyntax | ErrRange

definition parseCutoff :: uint64 where
  "parseCutoff = maxUint64 div 10 + 1"

fun parseUintLoop :: "string \<Rightarrow> uint64 \<Rightarrow> num_error + uint64" where
  "parseUintLoop [] n = Inr n"
| "parseUintLoop (c # cs) n =
     (if \<not> isDigit c then Inl ErrSyntax
      else if parseCutoff \<le> n then Inl ErrRange
      else let n = n * 10; n1 = n + of_nat (digitVal c)
           in if n1 < n then Inl ErrRange else parseUintLoop cs n1)"

definition parseUint :: "string \<Rightarrow> num_error + uint64" where
  "parseUint s = (if s = [] then Inl ErrSyntax else parseUintLoop s 0)"

lemma parseCutoff_nat: "unat parseCutoff = 1844674407370955162"
  by (simp add: parseCutoff_def maxUint64_def)

lemma parseUintLoop_step:
  fixes n :: uint64
  assumes d: "d < 10" and n: "\<not> parseCutoff \<le> n"
  shows "(n * 10 + of_nat d < n * 10) = (\<not> 10 * unat n + d < 2 ^ 64)"
    and "10 * unat n + d < 2 ^ 64 \<Longrightarrow> unat (n * 10 + of_nat d) = 10 * unat n + d"
proof -
  have "unat n < 1844674407370955162"
    using n parseCutoff_nat by (simp add: word_le_nat_alt not_le)
  then have u: "unat n * 10 < 2 ^ 64" by simp
  have m: "unat (n * 10) = 10 * unat n"
    using u by (subst unat_mult_lem [THEN iffD1]) (auto simp: mult.commute)
  have dw: "unat (of_nat d :: uint64) = d" using d by (simp add: unat_of_nat)
  have s: "unat (n * 10 + of_nat d) = (10 * unat n + d) mod 2 ^ 64"
    by (subst unat_word_ariths(1)) (simp add: m dw)
  show "unat (n * 10 + of_nat d) = 10 * unat n + d" if "10 * unat n + d < 2 ^ 64"
    using s that by simp
  have big: "(10 * unat n + d) mod 2 ^ 64 < 10 * unat n" if "2 ^ 64 \<le> 10 * unat n + d"
  proof -
    have "10 * unat n + d - 2 ^ 64 < 2 ^ 64" using u d by simp
    then have "(10 * unat n + d) mod 2 ^ 64 = 10 * unat n + d - 2 ^ 64"
      using that by (metis mod_if le_mod_geq mod_less)
    with that d show ?thesis by simp
  qed
  show "(n * 10 + of_nat d < n * 10) = (\<not> 10 * unat n + d < 2 ^ 64)"
  proof (cases "10 * unat n + d < 2 ^ 64")
    case True
    then have "unat (n * 10 + of_nat d) = 10 * unat n + d" using s by simp
    with True m show ?thesis by (simp add: word_less_nat_alt)
  next
    case False
    with s m big show ?thesis by (simp add: word_less_nat_alt)
  qed
qed

lemma parseUintLoop_eq:
  "list_all isDigit cs \<Longrightarrow>
   parseUintLoop cs n =
     (if decVal (unat n) cs < 2 ^ 64 then Inr (of_nat (decVal (unat n) cs)) else Inl ErrRange)"
proof (induction cs arbitrary: n)
  case Nil
  then show ?case using unat_less64 [of n] by simp
next
  case (Cons c cs)
  have d: "digitVal c < 10" using Cons.prems by (simp add: digitVal_less)
  let ?m = "10 * unat n + digitVal c"
  have mono: "?m \<le> decVal ?m cs" by (rule decVal_mono)
  show ?case
  proof (cases "parseCutoff \<le> n")
    case True
    then have "1844674407370955162 \<le> unat n"
      using parseCutoff_nat by (simp add: word_le_nat_alt)
    then have "\<not> decVal ?m cs < 2 ^ 64" using mono by simp
    with True Cons.prems show ?thesis by simp
  next
    case False
    note st = parseUintLoop_step [OF d False]
    show ?thesis
    proof (cases "?m < 2 ^ 64")
      case True
      with st False Cons show ?thesis by (simp add: Let_def)
    next
      case over: False
      then have "\<not> decVal ?m cs < 2 ^ 64" using mono by simp
      with over st False Cons.prems show ?thesis by (simp add: Let_def)
    qed
  qed
qed

lemma parseUint_eq:
  "cs \<noteq> [] \<Longrightarrow> list_all isDigit cs \<Longrightarrow>
   parseUint cs = (if decVal 0 cs < 2 ^ 64 then Inr (of_nat (decVal 0 cs)) else Inl ErrRange)"
  by (simp add: parseUint_def parseUintLoop_eq)

section \<open>FormatUint and \<open>%d\<close>\<close>

fun formatNat :: "nat \<Rightarrow> string" where
  "formatNat n = (if n < 10 then [digitChar n] else formatNat (n div 10) @ [digitChar (n mod 10)])"

declare formatNat.simps [simp del]

definition formatUint :: "uint64 \<Rightarrow> string" where
  "formatUint w = formatNat (unat w)"

definition formatInt :: "int \<Rightarrow> string" where
  "formatInt i = (if i < 0 then CHR ''-'' # formatNat (nat (- i)) else formatNat (nat i))"

lemma formatNat_digits: "list_all isDigit (formatNat n)"
proof (induction n rule: formatNat.induct)
  case (1 n)
  then show ?case by (subst formatNat.simps) auto
qed

lemma formatNat_nonempty [simp]: "formatNat n \<noteq> []"
  by (subst formatNat.simps) simp

lemma decVal_formatNat [simp]: "decVal 0 (formatNat n) = n"
proof (induction n rule: formatNat.induct)
  case (1 n)
  then show ?case by (subst formatNat.simps) auto
qed

lemma formatUint_digits [simp]: "list_all isDigit (formatUint w)"
  by (simp add: formatUint_def formatNat_digits)

lemma formatUint_nonempty [simp]: "formatUint w \<noteq> []"
  by (simp add: formatUint_def)

lemma parseUint_formatUint [simp]: "parseUint (formatUint w) = Inr w"
  using unat_less64 [of w] by (simp add: parseUint_eq formatUint_def formatNat_digits)

lemma parseUint_formatNat: "n < 2 ^ 64 \<Longrightarrow> parseUint (formatNat n) = Inr (of_nat n)"
  by (simp add: parseUint_eq formatNat_digits)

lemma formatNat_length_le: "n < 10 ^ k \<Longrightarrow> 0 < k \<Longrightarrow> length (formatNat n) \<le> k"
proof (induction k arbitrary: n)
  case (Suc k)
  show ?case
  proof (cases "n < 10")
    case True
    then show ?thesis by (subst formatNat.simps) simp
  next
    case False
    with Suc.prems have "0 < k" by (cases k) auto
    moreover have "n div 10 < 10 ^ k" using Suc.prems by simp
    ultimately have "length (formatNat (n div 10)) \<le> k" by (rule Suc.IH [rotated])
    with False show ?thesis by (subst formatNat.simps) simp
  qed
qed simp

lemma formatUint_length: "length (formatUint w) \<le> 20"
proof -
  have "unat w < 10 ^ 20" using unat_less64 [of w] by simp
  then show ?thesis unfolding formatUint_def by (rule formatNat_length_le) simp
qed

end
