(* ===== verification/Shard.thy ===== *)
theory Shard
  imports Lru Go_Strconv
begin

text \<open>
  One shard of the store: \<open>internal/store/shard.go\<close> and the helper functions of \<open>store.go\<close> that
  it calls.  Every method of \<open>shard\<close> runs from \<open>mu.Lock()\<close> to the deferred \<open>mu.Unlock()\<close>, so a
  method is one atomic function on the shard's state.  The process-wide CAS counter, which the Go
  code reaches through a pointer, is passed in and out; the time that \<open>sh.now()\<close> returns is an
  argument.

  Go ranges over a map in an unspecified order.  The order is a function argument \<open>ord\<close> that may
  return any permutation of the keys it is given.
\<close>

section \<open>Errors and configuration-independent helpers\<close>

datatype store_error =
    ErrNotFound
  | ErrNotInteger
  | ErrOverflow
  | ErrValueTooLarge
  | ErrMemoryLimitExceeded
  | ErrCasMismatch

definition isZero :: "time \<Rightarrow> bool" where
  "isZero t \<longleftrightarrow> t = 0"

definition expiresAt :: "time \<Rightarrow> duration \<Rightarrow> time" where
  "expiresAt now ttl = (if ttl \<le> 0 then 0 else now + ttl)"

definition expired :: "'a entry_scheme \<Rightarrow> time \<Rightarrow> bool" where
  "expired i now \<longleftrightarrow> \<not> isZero (si_expiresAt i) \<and> \<not> now < si_expiresAt i"

definition cloneBytes :: "bytes \<Rightarrow> bytes" where
  "cloneBytes value = (if length value = 0 then [] else value)"

definition isDecimal :: "bytes \<Rightarrow> bool" where
  "isDecimal value \<longleftrightarrow> length value \<noteq> 0 \<and> list_all isDigit value"

section \<open>State\<close>

record shard =
  sh_items :: "(key \<times> addr) list"
  sh_heap :: heap
  sh_fresh :: addr
  sh_lru :: lruList
  sh_memoryBytes :: int
  sh_ttlCount :: int
  sh_maxValueBytes :: int
  sh_maxMemoryBytes :: int
  sh_itemOverheadBytes :: int
  sh_evictions :: uint64
  sh_expirations :: uint64

record Item =
  it_Value :: bytes
  it_CAS :: uint64

type_synonym range_order = "key list \<Rightarrow> key list"

definition null_item :: storedItem where
  "null_item = \<lparr>si_key = [], si_value = [], si_expiresAt = 0, si_size = 0, si_cas = 0,
     si_prev = None, si_next = None\<rparr>"

definition newShard :: "int \<Rightarrow> int \<Rightarrow> int \<Rightarrow> shard" where
  "newShard maxValue overhead perShardMemory =
     \<lparr>sh_items = [], sh_heap = (\<lambda>_. null_item), sh_fresh = 0,
      sh_lru = \<lparr>lru_head = None, lru_tail = None\<rparr>,
      sh_memoryBytes = 0, sh_ttlCount = 0,
      sh_maxValueBytes = maxValue, sh_maxMemoryBytes = perShardMemory,
      sh_itemOverheadBytes = overhead, sh_evictions = 0, sh_expirations = 0\<rparr>"

section \<open>Operations under the lock\<close>

definition upd_item :: "addr \<Rightarrow> (storedItem \<Rightarrow> storedItem) \<Rightarrow> shard \<Rightarrow> shard" where
  "upd_item a f sh = sh\<lparr>sh_heap := (sh_heap sh)(a := f (sh_heap sh a))\<rparr>"

definition on_lru :: "(heap \<times> lruList \<Rightarrow> heap \<times> lruList) \<Rightarrow> shard \<Rightarrow> shard" where
  "on_lru f sh = (let (h, l) = f (sh_heap sh, sh_lru sh) in sh\<lparr>sh_heap := h, sh_lru := l\<rparr>)"

definition itemSize :: "shard \<Rightarrow> key \<Rightarrow> int \<Rightarrow> int" where
  "itemSize sh key valueBytes = go_int (int (length key) + valueBytes + sh_itemOverheadBytes sh)"

definition deleteLocked :: "addr \<Rightarrow> shard \<Rightarrow> shard" where
  "deleteLocked item sh =
     (let sh = sh\<lparr>sh_items := AList.delete (si_key (sh_heap sh item)) (sh_items sh)\<rparr>;
          sh = on_lru (remove item) sh;
          sh = sh\<lparr>sh_memoryBytes := go_int (sh_memoryBytes sh - si_size (sh_heap sh item))\<rparr>
      in if \<not> isZero (si_expiresAt (sh_heap sh item))
         then sh\<lparr>sh_ttlCount := sh_ttlCount sh - 1\<rparr> else sh)"

text \<open>
  The loop \<open>for _, item := range sh.items\<close> with deletion: an entry that is no longer in the map
  when the iteration reaches it is not produced.
\<close>

fun sweepLoop :: "time \<Rightarrow> key list \<Rightarrow> shard \<Rightarrow> nat \<Rightarrow> shard \<times> nat" where
  "sweepLoop now [] sh removed = (sh, removed)"
| "sweepLoop now (k # ks) sh removed =
     (case map_of (sh_items sh) k of
        None \<Rightarrow> sweepLoop now ks sh removed
      | Some item \<Rightarrow>
          if expired (sh_heap sh item) now
          then sweepLoop now ks (deleteLocked item sh) (Suc removed)
          else sweepLoop now ks sh removed)"

definition removeExpiredLocked :: "range_order \<Rightarrow> time \<Rightarrow> shard \<Rightarrow> shard" where
  "removeExpiredLocked ord now sh =
     (let (sh, removed) = sweepLoop now (ord (map fst (sh_items sh))) sh 0
      in if 0 < removed then sh\<lparr>sh_expirations := sh_expirations sh + of_nat removed\<rparr> else sh)"

fun evictLoop :: "nat \<Rightarrow> key \<Rightarrow> int \<Rightarrow> nat \<Rightarrow> shard \<Rightarrow> (bool \<times> nat \<times> shard) option" where
  "evictLoop 0 protectedKey projected evicted sh = None"
| "evictLoop (Suc n) protectedKey projected evicted sh =
     (if sh_maxMemoryBytes sh < projected then
        (case skipWhile (Suc (length (sh_items sh)))
                (\<lambda>c. si_key (sh_heap sh c) = protectedKey) (\<lambda>c. si_prev (sh_heap sh c))
                (lru_back (sh_heap sh, sh_lru sh)) of
           None \<Rightarrow> None
         | Some None \<Rightarrow> Some (False, evicted, sh)
         | Some (Some candidate) \<Rightarrow>
             let sz = si_size (sh_heap sh candidate)
             in evictLoop n protectedKey (go_int (projected - sz)) (Suc evicted)
                  (deleteLocked candidate sh))
      else Some (True, evicted, sh))"

definition evictUntilFitsLocked :: "key \<Rightarrow> int \<Rightarrow> shard \<Rightarrow> bool \<times> shard" where
  "evictUntilFitsLocked protectedKey projected sh =
     (case evictLoop (Suc (length (sh_items sh))) protectedKey projected 0 sh of
        None \<Rightarrow> (False, sh)
      | Some (ok, evicted, sh) \<Rightarrow>
          (ok, if 0 < evicted then sh\<lparr>sh_evictions := sh_evictions sh + of_nat evicted\<rparr> else sh))"

text \<open>The writes to an item that is already in the map, shared by \<open>set\<close> and \<open>cas\<close>.\<close>

definition refreshItem :: "addr \<Rightarrow> bytes \<Rightarrow> time \<Rightarrow> int \<Rightarrow> uint64 \<Rightarrow> shard \<Rightarrow> shard" where
  "refreshItem existing value expiry sz newCAS sh =
     (let hadTTL = \<not> isZero (si_expiresAt (sh_heap sh existing));
          sh = upd_item existing (\<lambda>i. i\<lparr>si_value := value, si_expiresAt := expiry,
                                        si_size := sz, si_cas := newCAS\<rparr>) sh;
          sh = on_lru (moveToFront existing) sh
      in if hadTTL \<and> isZero expiry then sh\<lparr>sh_ttlCount := sh_ttlCount sh - 1\<rparr>
         else if \<not> hadTTL \<and> \<not> isZero expiry then sh\<lparr>sh_ttlCount := sh_ttlCount sh + 1\<rparr>
         else sh)"

definition insertItem :: "key \<Rightarrow> bytes \<Rightarrow> time \<Rightarrow> int \<Rightarrow> uint64 \<Rightarrow> shard \<Rightarrow> shard" where
  "insertItem key value expiry sz newCAS sh =
     (let item = sh_fresh sh;
          sh = sh\<lparr>sh_fresh := Suc item\<rparr>;
          sh = upd_item item (\<lambda>_. \<lparr>si_key = key, si_value = value, si_expiresAt = expiry,
                 si_size = sz, si_cas = newCAS, si_prev = None, si_next = None\<rparr>) sh;
          sh = sh\<lparr>sh_items := AList.update key item (sh_items sh)\<rparr>;
          sh = on_lru (pushFront item) sh
      in if \<not> isZero expiry then sh\<lparr>sh_ttlCount := sh_ttlCount sh + 1\<rparr> else sh)"

section \<open>The shard's methods\<close>

definition setMakeRoom ::
  "range_order \<Rightarrow> time \<Rightarrow> key \<Rightarrow> int \<Rightarrow> int \<Rightarrow> shard \<Rightarrow> bool \<times> int \<times> shard" where
  "setMakeRoom ord now key oldSize sz sh =
     (let projected = go_int (sh_memoryBytes sh - oldSize + sz)
      in if sh_maxMemoryBytes sh < projected then
           let (sh, oldSize, projected) =
                 (if 0 < sh_ttlCount sh then
                    let sh = removeExpiredLocked ord now sh;
                        oldSize = (case map_of (sh_items sh) key of
                                     Some old \<Rightarrow> si_size (sh_heap sh old) | None \<Rightarrow> 0)
                    in (sh, oldSize, go_int (sh_memoryBytes sh - oldSize + sz))
                  else (sh, oldSize, projected))
           in if sh_maxMemoryBytes sh < projected then
                let (ok, sh) = evictUntilFitsLocked key projected sh
                in if \<not> ok then (False, projected, sh)
                   else (True, go_int (sh_memoryBytes sh - oldSize + sz), sh)
              else (True, projected, sh)
         else (True, projected, sh))"

definition shard_set ::
  "range_order \<Rightarrow> time \<Rightarrow> key \<Rightarrow> bytes \<Rightarrow> duration \<Rightarrow> shard \<Rightarrow> uint64
     \<Rightarrow> (store_error + unit) \<times> shard \<times> uint64" where
  "shard_set ord now key value ttl sh ctr =
     (if sh_maxValueBytes sh < int (length value) then (Inl ErrValueTooLarge, sh, ctr)
      else
        let (sh, oldSize) =
              (case map_of (sh_items sh) key of
                 Some old \<Rightarrow> if expired (sh_heap sh old) now then (deleteLocked old sh, 0)
                             else (sh, si_size (sh_heap sh old))
               | None \<Rightarrow> (sh, 0));
            sz = itemSize sh key (int (length value))
        in if sh_maxMemoryBytes sh < sz then (Inl ErrMemoryLimitExceeded, sh, ctr)
           else
             let (fits, projected, sh) = setMakeRoom ord now key oldSize sz sh
             in if \<not> fits then (Inl ErrMemoryLimitExceeded, sh, ctr)
                else
                  let expiry = expiresAt now ttl;
                      newCAS = ctr + 1;
                      sh = (case map_of (sh_items sh) key of
                              Some existing \<Rightarrow> refreshItem existing value expiry sz newCAS sh
                            | None \<Rightarrow> insertItem key value expiry sz newCAS sh)
                  in (Inr (), sh\<lparr>sh_memoryBytes := projected\<rparr>, newCAS))"

definition shard_get :: "time \<Rightarrow> key \<Rightarrow> shard \<Rightarrow> Item option \<times> shard" where
  "shard_get now key sh =
     (case map_of (sh_items sh) key of
        None \<Rightarrow> (None, sh)
      | Some item \<Rightarrow>
          if expired (sh_heap sh item) now then (None, deleteLocked item sh)
          else let sh = on_lru (moveToFront item) sh
               in (Some \<lparr>it_Value = cloneBytes (si_value (sh_heap sh item)),
                         it_CAS = si_cas (sh_heap sh item)\<rparr>, sh))"

definition casMakeRoom ::
  "range_order \<Rightarrow> time \<Rightarrow> key \<Rightarrow> addr \<Rightarrow> int \<Rightarrow> shard \<Rightarrow> (store_error + addr \<times> int) \<times> shard" where
  "casMakeRoom ord now key existing sz sh =
     (let projected = go_int (sh_memoryBytes sh - si_size (sh_heap sh existing) + sz)
      in if sh_maxMemoryBytes sh < projected then
           let (found, sh) =
                 (if 0 < sh_ttlCount sh then
                    let sh = removeExpiredLocked ord now sh
                    in (map_option (\<lambda>e. (e, go_int (sh_memoryBytes sh - si_size (sh_heap sh e) + sz)))
                          (map_of (sh_items sh) key), sh)
                  else (Some (existing, projected), sh))
           in case found of
                None \<Rightarrow> (Inl ErrNotFound, sh)
              | Some (existing, projected) \<Rightarrow>
                  if sh_maxMemoryBytes sh < projected then
                    let (ok, sh) = evictUntilFitsLocked key projected sh
                    in if \<not> ok then (Inl ErrMemoryLimitExceeded, sh)
                       else (Inr (existing,
                               go_int (sh_memoryBytes sh - si_size (sh_heap sh existing) + sz)), sh)
                  else (Inr (existing, projected), sh)
         else (Inr (existing, projected), sh))"

definition shard_cas ::
  "range_order \<Rightarrow> time \<Rightarrow> key \<Rightarrow> bytes \<Rightarrow> duration \<Rightarrow> uint64 \<Rightarrow> shard \<Rightarrow> uint64
     \<Rightarrow> (store_error + unit) \<times> shard \<times> uint64" where
  "shard_cas ord now key value ttl expected sh ctr =
     (if sh_maxValueBytes sh < int (length value) then (Inl ErrValueTooLarge, sh, ctr)
      else case map_of (sh_items sh) key of
        None \<Rightarrow> (Inl ErrNotFound, sh, ctr)
      | Some existing \<Rightarrow>
          if expired (sh_heap sh existing) now then (Inl ErrNotFound, deleteLocked existing sh, ctr)
          else if si_cas (sh_heap sh existing) \<noteq> expected then (Inl ErrCasMismatch, sh, ctr)
          else
            let sz = itemSize sh key (int (length value))
            in if sh_maxMemoryBytes sh < sz then (Inl ErrMemoryLimitExceeded, sh, ctr)
               else case casMakeRoom ord now key existing sz sh of
                 (Inl e, sh) \<Rightarrow> (Inl e, sh, ctr)
               | (Inr (existing, projected), sh) \<Rightarrow>
                   let expiry = expiresAt now ttl;
                       newCAS = ctr + 1;
                       sh = refreshItem existing value expiry sz newCAS sh
                   in (Inr (), sh\<lparr>sh_memoryBytes := projected\<rparr>, newCAS))"

definition shard_delete :: "time \<Rightarrow> key \<Rightarrow> shard \<Rightarrow> bool \<times> shard" where
  "shard_delete now key sh =
     (case map_of (sh_items sh) key of
        None \<Rightarrow> (False, sh)
      | Some item \<Rightarrow>
          if expired (sh_heap sh item) now then (False, deleteLocked item sh)
          else (True, deleteLocked item sh))"

definition incrMakeRoom ::
  "range_order \<Rightarrow> time \<Rightarrow> key \<Rightarrow> addr \<Rightarrow> int \<Rightarrow> shard \<Rightarrow> (store_error + addr \<times> int) \<times> shard" where
  "incrMakeRoom ord now key item nextSize sh =
     (let projected = go_int (sh_memoryBytes sh - si_size (sh_heap sh item) + nextSize)
      in if sh_maxMemoryBytes sh < projected then
           let (found, sh) =
                 (if 0 < sh_ttlCount sh then
                    let sh = removeExpiredLocked ord now sh
                    in (map_option (\<lambda>i. (i, go_int (sh_memoryBytes sh - si_size (sh_heap sh i) + nextSize)))
                          (map_of (sh_items sh) key), sh)
                  else (Some (item, projected), sh))
           in case found of
                None \<Rightarrow> (Inl ErrNotFound, sh)
              | Some (item, projected) \<Rightarrow>
                  let (ok, sh) = (if sh_maxMemoryBytes sh < projected
                                  then evictUntilFitsLocked key projected sh else (True, sh))
                  in if \<not> ok then (Inl ErrMemoryLimitExceeded, sh)
                     else (Inr (item,
                             go_int (sh_memoryBytes sh - si_size (sh_heap sh item) + nextSize)), sh)
         else (Inr (item, projected), sh))"

definition shard_incr ::
  "range_order \<Rightarrow> time \<Rightarrow> key \<Rightarrow> uint64 \<Rightarrow> shard \<Rightarrow> uint64
     \<Rightarrow> (store_error + uint64) \<times> shard \<times> uint64" where
  "shard_incr ord now key delta sh ctr =
     (case map_of (sh_items sh) key of
        None \<Rightarrow> (Inl ErrNotFound, sh, ctr)
      | Some item \<Rightarrow>
          if expired (sh_heap sh item) now then (Inl ErrNotFound, deleteLocked item sh, ctr)
          else if \<not> isDecimal (si_value (sh_heap sh item)) then (Inl ErrNotInteger, sh, ctr)
          else case parseUint (si_value (sh_heap sh item)) of
            Inl _ \<Rightarrow> (Inl ErrNotInteger, sh, ctr)
          | Inr current \<Rightarrow>
              if maxUint64 - current < delta then (Inl ErrOverflow, sh, ctr)
              else
                let nxt = current + delta;
                    nextValue = formatUint nxt
                in if sh_maxValueBytes sh < int (length nextValue) then (Inl ErrValueTooLarge, sh, ctr)
                   else
                     let nextSize = itemSize sh key (int (length nextValue))
                     in if sh_maxMemoryBytes sh < nextSize then (Inl ErrMemoryLimitExceeded, sh, ctr)
                        else case incrMakeRoom ord now key item nextSize sh of
                          (Inl e, sh) \<Rightarrow> (Inl e, sh, ctr)
                        | (Inr (item, projected), sh) \<Rightarrow>
                            let newCAS = ctr + 1;
                                sh = upd_item item (\<lambda>i. i\<lparr>si_value := nextValue,
                                       si_size := nextSize, si_cas := newCAS\<rparr>) sh;
                                sh = on_lru (moveToFront item) sh
                            in (Inr nxt, sh\<lparr>sh_memoryBytes := projected\<rparr>, newCAS))"

definition shard_cleanupExpired :: "range_order \<Rightarrow> time \<Rightarrow> shard \<Rightarrow> nat \<times> shard" where
  "shard_cleanupExpired ord now sh =
     (let (sh, removed) = sweepLoop now (ord (map fst (sh_items sh))) sh 0;
          sh = (if 0 < removed then sh\<lparr>sh_expirations := sh_expirations sh + of_nat removed\<rparr> else sh)
      in (removed, sh))"

definition memoryBytesSnapshot :: "shard \<Rightarrow> int" where
  "memoryBytesSnapshot sh = sh_memoryBytes sh"

end
