(* ===== verification/Cache_Spec.thy ===== *)
theory Cache_Spec
  imports Shard
begin

text \<open>
  The contract of a shard: a bounded cache as a list of entries, most recently used first, with no
  pointers, no map, no counters that could disagree with the contents, and no map iteration order.
  Sizes are mathematical integers.  The theory \<open>Shard_Refinement\<close> shows that the shard's
  methods implement these operations; what they do is stated and proved here.
\<close>

section \<open>Contents\<close>

record cache =
  c_entries :: "entry list"
  c_maxValueBytes :: int
  c_maxMemoryBytes :: int
  c_itemOverheadBytes :: int
  c_evictions :: uint64
  c_expirations :: uint64

definition c_lookup :: "key \<Rightarrow> entry list \<Rightarrow> entry option" where
  "c_lookup k es = find (\<lambda>e. si_key e = k) es"

definition c_drop :: "key \<Rightarrow> entry list \<Rightarrow> entry list" where
  "c_drop k es = filter (\<lambda>e. si_key e \<noteq> k) es"

definition c_purge :: "time \<Rightarrow> entry list \<Rightarrow> entry list" where
  "c_purge now es = filter (\<lambda>e. \<not> expired e now) es"

definition c_mem :: "entry list \<Rightarrow> int" where
  "c_mem es = sum_list (map si_size es)"

text \<open>Dropping entries from the least recently used end, except the entry of the key \<open>k\<close>.\<close>

fun drop_lru :: "key \<Rightarrow> int \<Rightarrow> entry list \<Rightarrow> entry list" where
  "drop_lru k over [] = []"
| "drop_lru k over (e # es) =
     (if over \<le> 0 then e # es
      else if si_key e = k then e # drop_lru k over es
      else drop_lru k (over - si_size e) es)"

definition c_evict :: "key \<Rightarrow> int \<Rightarrow> entry list \<Rightarrow> entry list" where
  "c_evict k over es = rev (drop_lru k over (rev es))"

text \<open>Memory in use when the entry of \<open>k\<close> is replaced by one of the given size.\<close>

definition c_projected :: "key \<Rightarrow> int \<Rightarrow> entry list \<Rightarrow> int" where
  "c_projected k sz es = c_mem (c_drop k es) + sz"

section \<open>Operations\<close>

definition c_expire :: "time \<Rightarrow> key \<Rightarrow> cache \<Rightarrow> cache" where
  "c_expire now k c =
     (case c_lookup k (c_entries c) of
        Some e \<Rightarrow> if expired e now then c\<lparr>c_entries := c_drop k (c_entries c)\<rparr> else c
      | None \<Rightarrow> c)"

definition c_sweep :: "time \<Rightarrow> cache \<Rightarrow> cache" where
  "c_sweep now c =
     c\<lparr>c_entries := c_purge now (c_entries c),
       c_expirations := c_expirations c
         + of_nat (length (c_entries c) - length (c_purge now (c_entries c)))\<rparr>"

definition c_shrink :: "key \<Rightarrow> int \<Rightarrow> cache \<Rightarrow> cache" where
  "c_shrink k sz c =
     (let es = c_evict k (c_projected k sz (c_entries c) - c_maxMemoryBytes c) (c_entries c)
      in c\<lparr>c_entries := es,
           c_evictions := c_evictions c + of_nat (length (c_entries c) - length es)\<rparr>)"

definition c_fits :: "key \<Rightarrow> int \<Rightarrow> cache \<Rightarrow> bool" where
  "c_fits k sz c \<longleftrightarrow> c_projected k sz (c_entries c) \<le> c_maxMemoryBytes c"

definition c_room :: "time \<Rightarrow> key \<Rightarrow> int \<Rightarrow> cache \<Rightarrow> cache" where
  "c_room now k sz c =
     (if c_fits k sz c then c
      else let c = c_sweep now c in if c_fits k sz c then c else c_shrink k sz c)"

definition c_put :: "entry \<Rightarrow> cache \<Rightarrow> cache" where
  "c_put e c = c\<lparr>c_entries := e # c_drop (si_key e) (c_entries c)\<rparr>"

definition c_size :: "cache \<Rightarrow> key \<Rightarrow> bytes \<Rightarrow> int" where
  "c_size c k v = int (length k) + int (length v) + c_itemOverheadBytes c"

definition spec_set ::
  "time \<Rightarrow> key \<Rightarrow> bytes \<Rightarrow> duration \<Rightarrow> cache \<Rightarrow> uint64 \<Rightarrow> (store_error + unit) \<times> cache \<times> uint64" where
  "spec_set now k v ttl c n =
     (if c_maxValueBytes c < int (length v) then (Inl ErrValueTooLarge, c, n)
      else let c = c_expire now k c; sz = c_size c k v
           in if c_maxMemoryBytes c < sz then (Inl ErrMemoryLimitExceeded, c, n)
              else (Inr (), c_put \<lparr>si_key = k, si_value = v, si_expiresAt = expiresAt now ttl,
                                   si_size = sz, si_cas = n + 1\<rparr> (c_room now k sz c), n + 1))"

definition spec_get :: "time \<Rightarrow> key \<Rightarrow> cache \<Rightarrow> Item option \<times> cache" where
  "spec_get now k c =
     (let c = c_expire now k c
      in case c_lookup k (c_entries c) of
           None \<Rightarrow> (None, c)
         | Some e \<Rightarrow> (Some \<lparr>it_Value = si_value e, it_CAS = si_cas e\<rparr>, c_put e c))"

definition spec_delete :: "time \<Rightarrow> key \<Rightarrow> cache \<Rightarrow> bool \<times> cache" where
  "spec_delete now k c =
     (let c = c_expire now k c
      in (c_lookup k (c_entries c) \<noteq> None, c\<lparr>c_entries := c_drop k (c_entries c)\<rparr>))"

definition spec_cas ::
  "time \<Rightarrow> key \<Rightarrow> bytes \<Rightarrow> duration \<Rightarrow> uint64 \<Rightarrow> cache \<Rightarrow> uint64
     \<Rightarrow> (store_error + unit) \<times> cache \<times> uint64" where
  "spec_cas now k v ttl expected c n =
     (if c_maxValueBytes c < int (length v) then (Inl ErrValueTooLarge, c, n)
      else let c = c_expire now k c
           in case c_lookup k (c_entries c) of
                None \<Rightarrow> (Inl ErrNotFound, c, n)
              | Some e \<Rightarrow>
                  if si_cas e \<noteq> expected then (Inl ErrCasMismatch, c, n)
                  else let sz = c_size c k v
                       in if c_maxMemoryBytes c < sz then (Inl ErrMemoryLimitExceeded, c, n)
                          else (Inr (), c_put \<lparr>si_key = k, si_value = v,
                                  si_expiresAt = expiresAt now ttl, si_size = sz,
                                  si_cas = n + 1\<rparr> (c_room now k sz c), n + 1))"

definition spec_incr ::
  "time \<Rightarrow> key \<Rightarrow> uint64 \<Rightarrow> cache \<Rightarrow> uint64 \<Rightarrow> (store_error + uint64) \<times> cache \<times> uint64" where
  "spec_incr now k delta c n =
     (let c = c_expire now k c
      in case c_lookup k (c_entries c) of
           None \<Rightarrow> (Inl ErrNotFound, c, n)
         | Some e \<Rightarrow>
             if \<not> isDecimal (si_value e) \<or> 2 ^ 64 \<le> decVal 0 (si_value e)
             then (Inl ErrNotInteger, c, n)
             else if 2 ^ 64 \<le> decVal 0 (si_value e) + unat delta then (Inl ErrOverflow, c, n)
             else let m = decVal 0 (si_value e) + unat delta; v = formatNat m; sz = c_size c k v
                  in if c_maxValueBytes c < int (length v) then (Inl ErrValueTooLarge, c, n)
                     else if c_maxMemoryBytes c < sz then (Inl ErrMemoryLimitExceeded, c, n)
                     else (Inr (of_nat m),
                           c_put (e\<lparr>si_value := v, si_size := sz, si_cas := n + 1\<rparr>)
                             (c_room now k sz c), n + 1))"

definition spec_cleanup :: "time \<Rightarrow> cache \<Rightarrow> nat \<times> cache" where
  "spec_cleanup now c =
     (length (c_entries c) - length (c_purge now (c_entries c)), c_sweep now c)"

section \<open>The invariant of a cache\<close>

definition entry_ok :: "cache \<Rightarrow> entry \<Rightarrow> bool" where
  "entry_ok c e \<longleftrightarrow> si_size e = c_size c (si_key e) (si_value e)
     \<and> int (length (si_value e)) \<le> c_maxValueBytes c"

text \<open>
  The two bounds on the configuration are what keeps the shard's 64-bit accounting exact: below
  them no sum of sizes leaves the signed range.
\<close>

definition cache_inv :: "cache \<Rightarrow> bool" where
  "cache_inv c \<longleftrightarrow> distinct (map si_key (c_entries c)) \<and> list_all (entry_ok c) (c_entries c)
     \<and> c_mem (c_entries c) \<le> c_maxMemoryBytes c
     \<and> 0 \<le> c_itemOverheadBytes c \<and> c_maxMemoryBytes c < 2 ^ 62"

section \<open>Lists of entries\<close>

lemma c_lookup_Some_iff:
  "distinct (map si_key es) \<Longrightarrow> c_lookup k es = Some e \<longleftrightarrow> e \<in> set es \<and> si_key e = k"
  unfolding c_lookup_def by (induction es) (auto simp: rev_image_eqI)

lemma c_lookup_None_iff: "c_lookup k es = None \<longleftrightarrow> k \<notin> si_key ` set es"
  unfolding c_lookup_def by (induction es) auto

lemma c_lookup_Nil [simp]: "c_lookup k [] = None"
  by (simp add: c_lookup_def)

lemma c_lookup_Cons [simp]:
  "c_lookup k (e # es) = (if si_key e = k then Some e else c_lookup k es)"
  by (simp add: c_lookup_def)

lemma c_lookup_key: "c_lookup k es = Some e \<Longrightarrow> e \<in> set es \<and> si_key e = k"
  unfolding c_lookup_def by (auto simp: find_Some_iff)

lemma c_drop_simps [simp]:
  "c_drop k [] = []"
  "c_drop k (e # es) = (if si_key e = k then c_drop k es else e # c_drop k es)"
  "c_drop k (xs @ ys) = c_drop k xs @ c_drop k ys"
  "c_drop k (rev es) = rev (c_drop k es)"
  "set (c_drop k es) = {e \<in> set es. si_key e \<noteq> k}"
  by (auto simp: c_drop_def rev_filter)

lemma c_mem_simps [simp]:
  "c_mem [] = 0" "c_mem (e # es) = si_size e + c_mem es" "c_mem (xs @ ys) = c_mem xs + c_mem ys"
  "c_mem (rev es) = c_mem es"
  by (auto simp: c_mem_def rev_map [symmetric] sum_list_rev)

lemma c_lookup_drop_same [simp]: "c_lookup k (c_drop k es) = None"
  by (simp add: c_lookup_None_iff) blast

lemma c_lookup_drop_other [simp]: "j \<noteq> k \<Longrightarrow> c_lookup j (c_drop k es) = c_lookup j es"
  by (induction es) auto

lemma c_drop_absent: "c_lookup k es = None \<Longrightarrow> c_drop k es = es"
  unfolding c_lookup_None_iff c_drop_def by (rule filter_True) force

lemma c_drop_idem [simp]: "c_drop k (c_drop k es) = c_drop k es"
  by (simp add: c_drop_def)

lemma c_mem_nonneg: "\<forall>e\<in>set es. 0 \<le> si_size e \<Longrightarrow> 0 \<le> c_mem es"
  unfolding c_mem_def by (intro sum_list_nonneg) auto

lemma c_mem_drop_le: "\<forall>e\<in>set es. 0 \<le> si_size e \<Longrightarrow> c_mem (c_drop k es) \<le> c_mem es"
  unfolding c_mem_def c_drop_def by (rule sum_list_filter_le)

lemma c_mem_drop:
  "distinct (map si_key es) \<Longrightarrow> c_lookup k es = Some e \<Longrightarrow> c_mem (c_drop k es) = c_mem es - si_size e"
proof (induction es)
  case (Cons a es)
  show ?case
  proof (cases "si_key a = k")
    case True
    then have "c_lookup k es = None" using Cons.prems by (auto simp: c_lookup_None_iff)
    with True Cons.prems show ?thesis by (simp add: c_drop_absent)
  next
    case False
    with Cons show ?thesis by simp
  qed
qed simp

lemma distinct_map_filter_key: "distinct (map si_key es) \<Longrightarrow> distinct (map si_key (filter P es))"
  by (rule distinct_map_filter)

section \<open>Eviction\<close>

text \<open>
  What \<open>drop_lru\<close> removes: from the sequence in least-recently-used order, a prefix without the
  entry of \<open>k\<close>; the prefix ends as soon as enough is freed.
\<close>

lemma drop_lru_split:
  "\<exists>p q. es = p @ q \<and> drop_lru k over es = filter (\<lambda>e. si_key e = k) p @ q
     \<and> (p \<noteq> [] \<longrightarrow> si_key (last p) \<noteq> k \<and> c_mem (c_drop k (butlast p)) < over)
     \<and> (c_drop k q = [] \<or> over \<le> c_mem (c_drop k p))"
proof (induction k over es rule: drop_lru.induct)
  case (1 k over)
  then show ?case by (intro exI [of _ "[]"]) simp
next
  case (2 k over e es)
  show ?case
  proof (cases "over \<le> 0")
    case True
    then show ?thesis by (intro exI [of _ "[]"] exI [of _ "e # es"]) simp
  next
    case pos: False
    show ?thesis
    proof (cases "si_key e = k")
      case True
      obtain p q where pq: "es = p @ q" "drop_lru k over es = filter (\<lambda>e. si_key e = k) p @ q"
          "p \<noteq> [] \<longrightarrow> si_key (last p) \<noteq> k \<and> c_mem (c_drop k (butlast p)) < over"
          "c_drop k q = [] \<or> over \<le> c_mem (c_drop k p)"
        using 2(1) [OF pos True] by blast
      show ?thesis
      proof (cases "p = []")
        case True
        with pq pos \<open>si_key e = k\<close> show ?thesis
          by (intro exI [of _ "[]"] exI [of _ "e # es"]) auto
      next
        case False
        with pq pos \<open>si_key e = k\<close> show ?thesis
          by (intro exI [of _ "e # p"] exI [of _ q]) auto
      qed
    next
      case False
      obtain p q where pq: "es = p @ q"
          "drop_lru k (over - si_size e) es = filter (\<lambda>e. si_key e = k) p @ q"
          "p \<noteq> [] \<longrightarrow> si_key (last p) \<noteq> k \<and> c_mem (c_drop k (butlast p)) < over - si_size e"
          "c_drop k q = [] \<or> over - si_size e \<le> c_mem (c_drop k p)"
        using 2(2) [OF pos False] by blast
      with pos False show ?thesis
        by (intro exI [of _ "e # p"] exI [of _ q]) auto
    qed
  qed
qed

lemma c_evict_split:
  obtains newer older where "es = newer @ older"
    and "c_evict k over es = newer @ filter (\<lambda>e. si_key e = k) older"
    and "older \<noteq> [] \<Longrightarrow> si_key (hd older) \<noteq> k"
    and "older \<noteq> [] \<Longrightarrow> c_mem (c_drop k (tl older)) < over"
    and "c_drop k newer = [] \<or> over \<le> c_mem (c_drop k older)"
proof -
  obtain p q where pq: "rev es = p @ q"
      "drop_lru k over (rev es) = filter (\<lambda>e. si_key e = k) p @ q"
      "p \<noteq> [] \<longrightarrow> si_key (last p) \<noteq> k \<and> c_mem (c_drop k (butlast p)) < over"
      "c_drop k q = [] \<or> over \<le> c_mem (c_drop k p)"
    using drop_lru_split [of "rev es" k over] by blast
  have "es = rev q @ rev p" using pq(1) by (metis rev_append rev_rev_ident)
  moreover have "tl (rev p) = rev (butlast p)" by (metis butlast_rev rev_rev_ident)
  moreover have "p \<noteq> [] \<Longrightarrow> hd (rev p) = last p" by (simp add: hd_rev)
  ultimately show thesis
    using pq by (intro that [of "rev q" "rev p"]) (auto simp: c_evict_def rev_filter)
qed

lemma c_evict_idle: "over \<le> 0 \<Longrightarrow> c_evict k over es = es"
  unfolding c_evict_def by (cases "rev es") auto

lemma c_evict_set: "set (c_evict k over es) \<subseteq> set es"
  by (rule c_evict_split [of es k over]) auto

lemma c_evict_distinct:
  "distinct (map si_key es) \<Longrightarrow> distinct (map si_key (c_evict k over es))"
  by (rule c_evict_split [of es k over]) (auto simp: distinct_map_filter)

lemma c_evict_protected:
  "e \<in> set es \<Longrightarrow> si_key e = k \<Longrightarrow> e \<in> set (c_evict k over es)"
  by (rule c_evict_split [of es k over]) auto

lemma c_lookup_evict:
  assumes "distinct (map si_key es)"
  shows "c_lookup k (c_evict k over es) = c_lookup k es"
proof (cases "c_lookup k es")
  case None
  then have "c_lookup k (c_evict k over es) = None"
    using c_evict_set [of k over es] by (auto simp: c_lookup_None_iff)
  with None show ?thesis by simp
next
  case (Some e)
  then have "c_lookup k (c_evict k over es) = Some e"
    using assms c_evict_protected [of e es k over]
    by (auto simp: c_lookup_Some_iff c_evict_distinct)
  with Some show ?thesis by simp
qed

lemma c_evict_frees:
  assumes "\<forall>e\<in>set es. 0 \<le> si_size e"
  shows "c_mem (c_drop k (c_evict k over es)) \<le> max (c_mem (c_drop k es) - over) 0"
proof -
  obtain newer older where e: "es = newer @ older"
      "c_evict k over es = newer @ filter (\<lambda>e. si_key e = k) older"
      "c_drop k newer = [] \<or> over \<le> c_mem (c_drop k older)"
    by (rule c_evict_split)
  have "c_drop k (filter (\<lambda>e. si_key e = k) older) = []" by (simp add: c_drop_def)
  then show ?thesis using e by auto
qed

section \<open>Every operation keeps the invariant\<close>

lemma cache_inv_sizes: "cache_inv c \<Longrightarrow> e \<in> set (c_entries c) \<Longrightarrow> 0 \<le> si_size e"
  by (auto simp: cache_inv_def list_all_iff entry_ok_def c_size_def)

lemma cache_inv_subset:
  assumes "cache_inv c" "set es \<subseteq> set (c_entries c)" "distinct (map si_key es)"
    "c_mem es \<le> c_mem (c_entries c)"
  shows "cache_inv (c\<lparr>c_entries := es\<rparr>)"
  using assms by (auto simp: cache_inv_def list_all_iff entry_ok_def c_size_def)

lemma cache_inv_filter:
  assumes "cache_inv c"
  shows "cache_inv (c\<lparr>c_entries := filter P (c_entries c)\<rparr>)"
proof (rule cache_inv_subset [OF assms])
  show "c_mem (filter P (c_entries c)) \<le> c_mem (c_entries c)"
    unfolding c_mem_def using cache_inv_sizes [OF assms] by (intro sum_list_filter_le) simp
qed (use assms in \<open>auto simp: cache_inv_def distinct_map_filter\<close>)

lemma cache_inv_counters [simp]:
  "cache_inv (c\<lparr>c_evictions := n\<rparr>) = cache_inv c"
  "cache_inv (c\<lparr>c_expirations := n\<rparr>) = cache_inv c"
  by (simp_all add: cache_inv_def entry_ok_def c_size_def list_all_iff)

lemma cache_inv_drop: "cache_inv c \<Longrightarrow> cache_inv (c\<lparr>c_entries := c_drop k (c_entries c)\<rparr>)"
  unfolding c_drop_def by (rule cache_inv_filter)

lemma cache_inv_expire: "cache_inv c \<Longrightarrow> cache_inv (c_expire now k c)"
  by (auto simp: c_expire_def cache_inv_drop split: option.split)

lemma cache_inv_sweep: "cache_inv c \<Longrightarrow> cache_inv (c_sweep now c)"
  using cache_inv_filter [of c "\<lambda>e. \<not> expired e now"]
  by (simp add: c_sweep_def c_purge_def cache_inv_def list_all_iff entry_ok_def c_size_def)

lemma cache_inv_evict:
  assumes "cache_inv c"
  shows "cache_inv (c\<lparr>c_entries := c_evict k over (c_entries c)\<rparr>)"
proof (rule cache_inv_subset [OF assms c_evict_set])
  show "distinct (map si_key (c_evict k over (c_entries c)))"
    using assms by (simp add: cache_inv_def c_evict_distinct)
  obtain newer older where e: "c_entries c = newer @ older"
      "c_evict k over (c_entries c) = newer @ filter (\<lambda>e. si_key e = k) older"
    by (rule c_evict_split)
  have "c_mem (filter (\<lambda>e. si_key e = k) older) \<le> c_mem older"
    unfolding c_mem_def using cache_inv_sizes [OF assms] e by (intro sum_list_filter_le) auto
  then show "c_mem (c_evict k over (c_entries c)) \<le> c_mem (c_entries c)"
    using e by simp
qed

lemma cache_inv_shrink: "cache_inv c \<Longrightarrow> cache_inv (c_shrink k sz c)"
  using cache_inv_evict
    [of c k "c_projected k sz (c_entries c) - c_maxMemoryBytes c"]
  by (simp add: c_shrink_def Let_def cache_inv_def list_all_iff entry_ok_def c_size_def)

lemma cache_inv_room: "cache_inv c \<Longrightarrow> cache_inv (c_room now k sz c)"
  by (simp add: c_room_def Let_def cache_inv_sweep cache_inv_shrink)

text \<open>Configuration is never written.\<close>

lemma c_config [simp]:
  "c_maxValueBytes (c_expire now k c) = c_maxValueBytes c"
  "c_maxMemoryBytes (c_expire now k c) = c_maxMemoryBytes c"
  "c_itemOverheadBytes (c_expire now k c) = c_itemOverheadBytes c"
  "c_maxValueBytes (c_room now k sz c) = c_maxValueBytes c"
  "c_maxMemoryBytes (c_room now k sz c) = c_maxMemoryBytes c"
  "c_itemOverheadBytes (c_room now k sz c) = c_itemOverheadBytes c"
  "c_maxValueBytes (c_put e c) = c_maxValueBytes c"
  "c_maxMemoryBytes (c_put e c) = c_maxMemoryBytes c"
  "c_itemOverheadBytes (c_put e c) = c_itemOverheadBytes c"
  by (auto simp: c_expire_def c_room_def c_sweep_def c_shrink_def c_put_def Let_def
      split: option.split)

lemma c_size_config [simp]:
  "c_size (c_expire now k c) = c_size c" "c_size (c_room now k sz c) = c_size c"
  "c_size (c_put e c) = c_size c" "c_size (c\<lparr>c_entries := es\<rparr>) = c_size c"
  by (auto simp: c_size_def fun_eq_iff)

text \<open>Making room succeeds whenever the entry alone fits the budget.\<close>

lemma c_shrink_fits:
  assumes "cache_inv c" "sz \<le> c_maxMemoryBytes c"
  shows "c_fits k sz (c_shrink k sz c)"
proof -
  let ?over = "c_projected k sz (c_entries c) - c_maxMemoryBytes c"
  have "c_mem (c_drop k (c_evict k ?over (c_entries c)))
      \<le> max (c_mem (c_drop k (c_entries c)) - ?over) 0"
    using cache_inv_sizes [OF assms(1)] by (intro c_evict_frees) simp
  with assms(2) show ?thesis
    by (simp add: c_fits_def c_shrink_def Let_def c_projected_def)
qed

lemma c_room_fits:
  assumes "cache_inv c" "sz \<le> c_maxMemoryBytes c"
  shows "c_fits k sz (c_room now k sz c)"
  using assms c_shrink_fits [of "c_sweep now c" sz k]
  by (auto simp: c_room_def Let_def cache_inv_sweep) (simp add: c_sweep_def)

lemma cache_inv_put:
  assumes "cache_inv c" "c_fits (si_key e) (si_size e) c" "entry_ok c e"
  shows "cache_inv (c_put e c)"
  using assms cache_inv_drop [OF assms(1), of "si_key e"]
  by (auto simp: c_put_def cache_inv_def c_fits_def c_projected_def list_all_iff entry_ok_def c_size_def)

end
