(* ===== verification/Shard_Refinement.thy ===== *)
theory Shard_Refinement
  imports Cache_Spec
begin

text \<open>
  The shard implements the cache.  \<open>repr sh xs\<close> ties the four pieces of a shard together: the
  linked list visits the addresses \<open>xs\<close>, the map holds exactly their keys, the byte counter is the
  sum of their sizes and the TTL counter the number of them that expire.  \<open>sim sh c\<close> adds that the
  payloads along the list are the entries of the cache \<open>c\<close>, which satisfies its invariant.
\<close>

section \<open>The simulation relation\<close>

definition repr :: "shard \<Rightarrow> addr list \<Rightarrow> bool" where
  "repr sh xs \<longleftrightarrow> dll (sh_heap sh, sh_lru sh) xs
     \<and> mset (sh_items sh) = mset (map (\<lambda>a. (si_key (sh_heap sh a), a)) xs)
     \<and> distinct (map (\<lambda>a. si_key (sh_heap sh a)) xs)
     \<and> list_all (\<lambda>a. a < sh_fresh sh) xs
     \<and> sh_memoryBytes sh = sum_list (map (\<lambda>a. si_size (sh_heap sh a)) xs)
     \<and> sh_ttlCount sh = int (length (filter (\<lambda>a. \<not> isZero (si_expiresAt (sh_heap sh a))) xs))"

definition cache_of :: "shard \<Rightarrow> addr list \<Rightarrow> cache" where
  "cache_of sh xs =
     \<lparr>c_entries = map (payload (sh_heap sh)) xs,
      c_maxValueBytes = sh_maxValueBytes sh, c_maxMemoryBytes = sh_maxMemoryBytes sh,
      c_itemOverheadBytes = sh_itemOverheadBytes sh,
      c_evictions = sh_evictions sh, c_expirations = sh_expirations sh\<rparr>"

definition addrs :: "shard \<Rightarrow> addr list" where
  "addrs sh = walk (length (sh_items sh)) (sh_heap sh) (lru_head (sh_lru sh))"

definition abs_shard :: "shard \<Rightarrow> cache" where
  "abs_shard sh = cache_of sh (addrs sh)"

definition shard_inv :: "shard \<Rightarrow> bool" where
  "shard_inv sh \<longleftrightarrow> repr sh (addrs sh) \<and> cache_inv (abs_shard sh)"

definition sim :: "shard \<Rightarrow> cache \<Rightarrow> bool" where
  "sim sh c \<longleftrightarrow> (\<exists>xs. repr sh xs \<and> c = cache_of sh xs \<and> cache_inv c)"

text \<open>Keys short enough that no item size leaves the signed 64-bit range.\<close>

definition key_fits :: "shard \<Rightarrow> key \<Rightarrow> bool" where
  "key_fits sh k \<longleftrightarrow> int (length k) + sh_maxValueBytes sh + sh_itemOverheadBytes sh < 2 ^ 63"

lemma repr_length: "repr sh xs \<Longrightarrow> length (sh_items sh) = length xs"
  unfolding repr_def by (metis length_map size_mset)

lemma repr_addrs: "repr sh xs \<Longrightarrow> addrs sh = xs"
  using repr_length [of sh xs] unfolding addrs_def repr_def by (auto intro: walk_dll)

lemma sim_iff: "sim sh c \<longleftrightarrow> shard_inv sh \<and> c = abs_shard sh"
  unfolding sim_def shard_inv_def abs_shard_def using repr_addrs by blast

lemma simI: "repr sh xs \<Longrightarrow> c = cache_of sh xs \<Longrightarrow> cache_inv c \<Longrightarrow> sim sh c"
  unfolding sim_def by blast

lemma sim_inv: "sim sh c \<Longrightarrow> cache_inv c"
  unfolding sim_def by blast

lemma repr_keys: "repr sh xs \<Longrightarrow> distinct (map fst (sh_items sh))"
proof -
  assume r: "repr sh xs"
  have "mset (map fst (sh_items sh)) = mset (map (\<lambda>a. si_key (sh_heap sh a)) xs)"
    using r by (simp add: repr_def image_mset.compositionality comp_def)
  moreover have "distinct (map (\<lambda>a. si_key (sh_heap sh a)) xs)" using r by (simp add: repr_def)
  ultimately show ?thesis by (metis mset_eq_imp_distinct_iff)
qed

lemma repr_lookup:
  assumes "repr sh xs"
  shows "map_of (sh_items sh) k = Some a \<longleftrightarrow> a \<in> set xs \<and> si_key (sh_heap sh a) = k"
proof -
  have "set (sh_items sh) = (\<lambda>a. (si_key (sh_heap sh a), a)) ` set xs"
    using assms unfolding repr_def by (metis list.set_map set_mset_mset)
  then show ?thesis using repr_keys [OF assms] by auto
qed

lemma sim_config:
  assumes "sim sh c"
  shows "sh_maxValueBytes sh = c_maxValueBytes c" "sh_maxMemoryBytes sh = c_maxMemoryBytes c"
    "sh_itemOverheadBytes sh = c_itemOverheadBytes c"
  using assms by (auto simp: sim_def cache_of_def)

lemma sim_memory:
  assumes "sim sh c"
  shows "sh_memoryBytes sh = c_mem (c_entries c)"
  using assms by (auto simp: sim_def cache_of_def repr_def c_mem_def comp_def)

lemma sim_Some:
  assumes "sim sh c" "map_of (sh_items sh) k = Some a"
  shows "c_lookup k (c_entries c) = Some (payload (sh_heap sh) a)"
proof -
  obtain xs where xs: "repr sh xs" "c = cache_of sh xs" using assms(1) by (auto simp: sim_def)
  have "distinct (map si_key (c_entries c))" using sim_inv [OF assms(1)] by (simp add: cache_inv_def)
  moreover have "a \<in> set xs" "si_key (sh_heap sh a) = k" using xs assms(2) by (auto simp: repr_lookup)
  ultimately show ?thesis using xs by (simp add: c_lookup_Some_iff cache_of_def)
qed

lemma sim_None:
  assumes "sim sh c" "map_of (sh_items sh) k = None"
  shows "c_lookup k (c_entries c) = None"
proof -
  obtain xs where xs: "repr sh xs" "c = cache_of sh xs" using assms(1) by (auto simp: sim_def)
  have "\<not> (\<exists>a\<in>set xs. si_key (sh_heap sh a) = k)"
    using assms(2) repr_lookup [OF xs(1)] by (metis option.distinct(1))
  then show ?thesis using xs by (auto simp: c_lookup_None_iff cache_of_def)
qed

lemma sim_lookup:
  assumes "sim sh c"
  shows "map_option (payload (sh_heap sh)) (map_of (sh_items sh) k) = c_lookup k (c_entries c)"
  using sim_Some [OF assms] sim_None [OF assms] by (cases "map_of (sh_items sh) k") auto

lemma expired_payload [simp]: "expired (payload h a) now = expired (h a) now"
  by (simp add: expired_def)

section \<open>Deletion\<close>

lemma on_lru_simps [simp]:
  "sh_heap (on_lru f sh) = fst (f (sh_heap sh, sh_lru sh))"
  "sh_lru (on_lru f sh) = snd (f (sh_heap sh, sh_lru sh))"
  "sh_items (on_lru f sh) = sh_items sh" "sh_fresh (on_lru f sh) = sh_fresh sh"
  "sh_memoryBytes (on_lru f sh) = sh_memoryBytes sh" "sh_ttlCount (on_lru f sh) = sh_ttlCount sh"
  "sh_maxValueBytes (on_lru f sh) = sh_maxValueBytes sh"
  "sh_maxMemoryBytes (on_lru f sh) = sh_maxMemoryBytes sh"
  "sh_itemOverheadBytes (on_lru f sh) = sh_itemOverheadBytes sh"
  "sh_evictions (on_lru f sh) = sh_evictions sh" "sh_expirations (on_lru f sh) = sh_expirations sh"
  by (simp_all add: on_lru_def split: prod.split)

lemma deleteLocked_simps [simp]:
  "sh_items (deleteLocked a sh) = AList.delete (si_key (sh_heap sh a)) (sh_items sh)"
  "sh_heap (deleteLocked a sh) = fst (remove a (sh_heap sh, sh_lru sh))"
  "sh_lru (deleteLocked a sh) = snd (remove a (sh_heap sh, sh_lru sh))"
  "sh_memoryBytes (deleteLocked a sh) = go_int (sh_memoryBytes sh - si_size (sh_heap sh a))"
  "sh_ttlCount (deleteLocked a sh) =
     sh_ttlCount sh - (if isZero (si_expiresAt (sh_heap sh a)) then 0 else 1)"
  "sh_fresh (deleteLocked a sh) = sh_fresh sh"
  "sh_maxValueBytes (deleteLocked a sh) = sh_maxValueBytes sh"
  "sh_maxMemoryBytes (deleteLocked a sh) = sh_maxMemoryBytes sh"
  "sh_itemOverheadBytes (deleteLocked a sh) = sh_itemOverheadBytes sh"
  "sh_evictions (deleteLocked a sh) = sh_evictions sh"
  "sh_expirations (deleteLocked a sh) = sh_expirations sh"
  by (simp_all add: deleteLocked_def Let_def)

lemma repr_deleteLocked:
  assumes r: "repr sh xs" and a: "a \<in> set xs"
    and nn: "\<forall>b\<in>set xs. 0 \<le> si_size (sh_heap sh b)" and m: "sh_memoryBytes sh < 2 ^ 62"
  shows "repr (deleteLocked a sh) (remove1 a xs)"
proof -
  let ?h = "sh_heap sh" and ?key = "\<lambda>a. si_key (sh_heap sh a)"
  have dk: "distinct (map ?key xs)" using r by (simp add: repr_def)
  have rf: "remove1 a xs = filter (\<lambda>x. ?key x \<noteq> ?key a) xs" by (rule remove1_filter_inj [OF dk a])
  have "mset (AList.delete (?key a) (sh_items sh)) = mset (map (\<lambda>b. (?key b, b)) (remove1 a xs))"
  proof -
    have "mset (AList.delete (?key a) (sh_items sh))
        = filter_mset (\<lambda>(k', _). ?key a \<noteq> k') (mset (map (\<lambda>b. (?key b, b)) xs))"
      using r by (simp add: repr_def AList.delete_eq)
    also have "\<dots> = mset (filter (\<lambda>(k', _). ?key a \<noteq> k') (map (\<lambda>b. (?key b, b)) xs))" by simp
    also have "\<dots> = mset (map (\<lambda>b. (?key b, b)) (filter (\<lambda>x. ?key x \<noteq> ?key a) xs))"
      by (simp add: filter_map comp_def eq_commute)
    finally show ?thesis unfolding rf .
  qed
  moreover have "distinct (map ?key (remove1 a xs))" unfolding rf using dk by (rule distinct_map_filter)
  moreover have "go_int (sh_memoryBytes sh - si_size (?h a)) = sum_list (map (\<lambda>a. si_size (?h a)) (remove1 a xs))"
  proof -
    have s: "sh_memoryBytes sh = sum_list (map (\<lambda>a. si_size (?h a)) xs)" using r by (simp add: repr_def)
    have "si_size (?h a) \<le> sh_memoryBytes sh" unfolding s using nn a by (rule sum_list_nonneg_mem)
    moreover have "0 \<le> si_size (?h a)" using nn a by simp
    ultimately show ?thesis using a m s by (simp add: go_int_id sum_list_remove1_int)
  qed
  moreover have "dll (remove a (?h, sh_lru sh)) (remove1 a xs)"
    using r a by (simp add: repr_def dll_remove)
  moreover have "list_all (\<lambda>a. a < sh_fresh sh) (remove1 a xs)"
    using r notin_set_remove1 by (fastforce simp: repr_def list_all_iff)
  ultimately show ?thesis
    using r a by (simp add: repr_def length_filter_remove1)
qed

lemma sim_deleteLocked:
  assumes s: "sim sh c" and k: "map_of (sh_items sh) k = Some a"
  shows "sim (deleteLocked a sh) (c\<lparr>c_entries := c_drop k (c_entries c)\<rparr>)"
proof -
  obtain xs where xs: "repr sh xs" "c = cache_of sh xs" and inv: "cache_inv c"
    using s by (auto simp: sim_def)
  have a: "a \<in> set xs" "si_key (sh_heap sh a) = k" using k xs(1) by (auto simp: repr_lookup)
  have nn: "\<forall>b\<in>set xs. 0 \<le> si_size (sh_heap sh b)"
    using cache_inv_sizes [OF inv] xs by (force simp: cache_of_def)
  have m: "sh_memoryBytes sh < 2 ^ 62"
    using inv sim_memory [OF s] by (simp add: cache_inv_def)
  have "repr (deleteLocked a sh) (remove1 a xs)" by (rule repr_deleteLocked [OF xs(1) a(1) nn m])
  moreover have "c\<lparr>c_entries := c_drop k (c_entries c)\<rparr> = cache_of (deleteLocked a sh) (remove1 a xs)"
  proof -
    have "remove1 a xs = filter (\<lambda>x. si_key (sh_heap sh x) \<noteq> k) xs"
      using xs(1) a by (subst remove1_filter_inj [where f = "\<lambda>a. si_key (sh_heap sh a)"]) (auto simp: repr_def)
    then show ?thesis using xs(2) by (simp add: cache_of_def c_drop_def filter_map comp_def)
  qed
  ultimately show ?thesis using cache_inv_drop [OF inv] by (rule simI)
qed

section \<open>Sweeping out expired items\<close>

text \<open>What Go promises about \<open>range\<close> over a map: every key once, in some order.\<close>

definition iterates :: "range_order \<Rightarrow> bool" where
  "iterates ord \<longleftrightarrow> (\<forall>ks. mset (ord ks) = mset ks)"

lemma iterates_set: "iterates ord \<Longrightarrow> set (ord ks) = set ks"
  unfolding iterates_def by (metis set_mset_mset)

lemma length_c_drop:
  "distinct (map si_key es) \<Longrightarrow> c_lookup k es = Some e \<Longrightarrow> Suc (length (c_drop k es)) = length es"
proof (induction es)
  case (Cons a es)
  show ?case
  proof (cases "si_key a = k")
    case True
    then have "c_lookup k es = None" using Cons.prems by (auto simp: c_lookup_None_iff)
    with True Cons.prems show ?thesis by (simp add: c_drop_absent)
  qed (use Cons in simp)
qed simp

lemma sim_sweepLoop:
  "sim sh c \<Longrightarrow> sweepLoop now ks sh n = (sh', n') \<Longrightarrow>
   sim sh' (c\<lparr>c_entries := filter (\<lambda>e. \<not> (si_key e \<in> set ks \<and> expired e now)) (c_entries c)\<rparr>)
   \<and> n' + length (filter (\<lambda>e. \<not> (si_key e \<in> set ks \<and> expired e now)) (c_entries c))
       = n + length (c_entries c)"
proof (induction ks arbitrary: sh c n)
  case Nil
  then show ?case by simp
next
  case (Cons k ks)
  have dk: "distinct (map si_key (c_entries c))"
    using sim_inv [OF Cons.prems(1)] by (simp add: cache_inv_def)
  show ?case
  proof (cases "map_of (sh_items sh) k")
    case None
    with sim_None [OF Cons.prems(1) None]
    have "filter (\<lambda>e. \<not> (si_key e \<in> set (k # ks) \<and> expired e now)) (c_entries c)
        = filter (\<lambda>e. \<not> (si_key e \<in> set ks \<and> expired e now)) (c_entries c)"
      by (intro filter_cong) (auto simp: c_lookup_None_iff)
    with None Cons show ?thesis by simp
  next
    case (Some a)
    let ?e = "payload (sh_heap sh) a"
    have l: "c_lookup k (c_entries c) = Some ?e" by (rule sim_Some [OF Cons.prems(1) Some])
    have u: "expired e now = expired (sh_heap sh a) now"
      if "e \<in> set (c_entries c)" "si_key e = k" for e
      using l that dk by (metis c_lookup_Some_iff option.inject expired_payload)
    show ?thesis
    proof (cases "expired (sh_heap sh a) now")
      case True
      have "filter (\<lambda>e. \<not> (si_key e \<in> set (k # ks) \<and> expired e now)) (c_entries c)
          = filter (\<lambda>e. \<not> (si_key e \<in> set ks \<and> expired e now)) (c_drop k (c_entries c))"
        unfolding c_drop_def filter_filter using u True
        by (intro filter_cong) auto
      with Cons.IH [OF sim_deleteLocked [OF Cons.prems(1) Some]] True Some Cons.prems(2)
        length_c_drop [OF dk l]
      show ?thesis by simp
    next
      case False
      have "filter (\<lambda>e. \<not> (si_key e \<in> set (k # ks) \<and> expired e now)) (c_entries c)
          = filter (\<lambda>e. \<not> (si_key e \<in> set ks \<and> expired e now)) (c_entries c)"
        using u False by (intro filter_cong) auto
      with False Some Cons show ?thesis by simp
    qed
  qed
qed

lemma sim_keys:
  assumes "sim sh c"
  shows "set (map fst (sh_items sh)) = si_key ` set (c_entries c)"
proof -
  have "k \<in> set (map fst (sh_items sh)) \<longleftrightarrow> k \<in> si_key ` set (c_entries c)" for k
    using sim_lookup [OF assms, of k] c_lookup_None_iff [of k "c_entries c"]
    by (metis list.set_map map_of_eq_None_iff option.map_disc_iff)
  then show ?thesis by blast
qed

lemma sim_sweep_all:
  assumes "sim sh c" "iterates ord"
    and "sweepLoop now (ord (map fst (sh_items sh))) sh 0 = (sh', n)"
  shows "sim sh' (c\<lparr>c_entries := c_purge now (c_entries c)\<rparr>)"
    and "n = length (c_entries c) - length (c_purge now (c_entries c))"
proof -
  have "set (ord (map fst (sh_items sh))) = si_key ` set (c_entries c)"
    using assms(2) sim_keys [OF assms(1)] by (simp only: iterates_set)
  then have p: "filter (\<lambda>e. \<not> (si_key e \<in> set (ord (map fst (sh_items sh))) \<and> expired e now)) (c_entries c)
      = c_purge now (c_entries c)"
    unfolding c_purge_def by (intro filter_cong) auto
  show "sim sh' (c\<lparr>c_entries := c_purge now (c_entries c)\<rparr>)"
    using sim_sweepLoop [OF assms(1,3)] unfolding p by simp
  show "n = length (c_entries c) - length (c_purge now (c_entries c))"
    using sim_sweepLoop [OF assms(1,3)] unfolding p by linarith
qed

lemma cache_of_counters:
  "repr (sh\<lparr>sh_expirations := m\<rparr>) xs = repr sh xs" "repr (sh\<lparr>sh_evictions := m\<rparr>) xs = repr sh xs"
  "cache_of (sh\<lparr>sh_expirations := m\<rparr>) xs = (cache_of sh xs)\<lparr>c_expirations := m\<rparr>"
  "cache_of (sh\<lparr>sh_evictions := m\<rparr>) xs = (cache_of sh xs)\<lparr>c_evictions := m\<rparr>"
  by (auto simp: repr_def cache_of_def)

lemma sim_expirations: "sim sh c \<Longrightarrow> sim (sh\<lparr>sh_expirations := m\<rparr>) (c\<lparr>c_expirations := m\<rparr>)"
  unfolding sim_def using cache_of_counters(1,3) by fastforce

lemma sim_evictions: "sim sh c \<Longrightarrow> sim (sh\<lparr>sh_evictions := m\<rparr>) (c\<lparr>c_evictions := m\<rparr>)"
  unfolding sim_def using cache_of_counters(2,4) by fastforce

lemma sim_counters: "sim sh c \<Longrightarrow> sh_evictions sh = c_evictions c \<and> sh_expirations sh = c_expirations c"
  by (auto simp: sim_def cache_of_def)

lemma sim_cleanup:
  assumes "sim sh c" "iterates ord"
  shows "\<exists>sh'. shard_cleanupExpired ord now sh = (fst (spec_cleanup now c), sh')
    \<and> sim sh' (snd (spec_cleanup now c))"
proof -
  obtain sh' n where sw: "sweepLoop now (ord (map fst (sh_items sh))) sh 0 = (sh', n)" by fastforce
  note s = sim_sweep_all [OF assms sw]
  have "sim (sh'\<lparr>sh_expirations := sh_expirations sh' + of_nat n\<rparr>) (c_sweep now c)"
    using sim_expirations [OF s(1), of "sh_expirations sh' + of_nat n"] sim_counters [OF s(1)] s(2)
    by (simp add: c_sweep_def)
  moreover have "sim sh' (c_sweep now c)" if "n = 0"
    using s that by (simp add: c_sweep_def)
  ultimately show ?thesis using sw s(2) by (auto simp: shard_cleanupExpired_def spec_cleanup_def)
qed

lemma removeExpired_cleanup: "removeExpiredLocked ord now sh = snd (shard_cleanupExpired ord now sh)"
  by (simp add: removeExpiredLocked_def shard_cleanupExpired_def split: prod.split)

lemma sim_removeExpired:
  "sim sh c \<Longrightarrow> iterates ord \<Longrightarrow> sim (removeExpiredLocked ord now sh) (c_sweep now c)"
  using sim_cleanup [of sh c ord now] by (auto simp: removeExpired_cleanup spec_cleanup_def)

text \<open>When no item carries a TTL, the sweep would change nothing.\<close>

lemma sim_no_ttl:
  assumes "sim sh c" "\<not> 0 < sh_ttlCount sh"
  shows "c_sweep now c = c"
proof -
  obtain xs where xs: "repr sh xs" "c = cache_of sh xs" using assms(1) by (auto simp: sim_def)
  have "\<forall>a\<in>set xs. isZero (si_expiresAt (sh_heap sh a))"
    using xs(1) assms(2) by (auto simp: repr_def filter_empty_conv)
  then have "c_purge now (c_entries c) = c_entries c"
    using xs(2) by (auto simp: c_purge_def cache_of_def expired_def filter_id_conv)
  then show ?thesis by (simp add: c_sweep_def)
qed

section \<open>Eviction\<close>

lemma drop_lru_idle: "over \<le> 0 \<Longrightarrow> drop_lru k over es = es"
  by (cases es) auto

lemma drop_lru_step:
  "0 < over \<Longrightarrow> find (\<lambda>e. si_key e \<noteq> k) es = Some e \<Longrightarrow> distinct (map si_key es) \<Longrightarrow>
   drop_lru k over es = drop_lru k (over - si_size e) (c_drop (si_key e) es)"
proof (induction es)
  case (Cons x es)
  show ?case
  proof (cases "si_key x = k")
    case True
    with Cons have "find (\<lambda>e. si_key e \<noteq> k) es = Some e" by simp
    then have "si_key e \<noteq> k" by (auto simp: find_Some_iff)
    with True Cons show ?thesis by (auto simp: drop_lru_idle)
  next
    case False
    with Cons.prems have "e = x" "c_drop (si_key x) es = es"
      by (auto simp: c_drop_absent c_lookup_None_iff)
    with False Cons.prems show ?thesis by simp
  qed
qed simp

lemma c_evict_step:
  assumes "0 < over" "find (\<lambda>e. si_key e \<noteq> k) (rev es) = Some e" "distinct (map si_key es)"
  shows "c_evict k over es = c_evict k (over - si_size e) (c_drop (si_key e) es)"
  using drop_lru_step [OF assms(1,2)] assms(3)
  by (simp add: c_evict_def rev_map [symmetric])

lemma c_projected_drop:
  assumes "distinct (map si_key es)" "c_lookup j es = Some e" "j \<noteq> k"
  shows "c_projected k sz (c_drop j es) = c_projected k sz es - si_size e"
proof -
  have "c_drop k (c_drop j es) = c_drop j (c_drop k es)"
    by (simp add: c_drop_def conj_commute)
  moreover have "c_lookup j (c_drop k es) = Some e" using assms by simp
  moreover have "distinct (map si_key (c_drop k es))"
    using assms(1) unfolding c_drop_def by (rule distinct_map_filter)
  ultimately show ?thesis by (simp add: c_projected_def c_mem_drop)
qed

lemma c_projected_bounds:
  assumes "cache_inv c" "0 \<le> sz" "sz \<le> c_maxMemoryBytes c"
  shows "0 \<le> c_projected k sz (c_entries c)" "c_projected k sz (c_entries c) < 2 ^ 63"
proof -
  have "0 \<le> c_mem (c_drop k (c_entries c))"
    using cache_inv_sizes [OF assms(1)] by (intro c_mem_nonneg) simp
  moreover have "c_mem (c_drop k (c_entries c)) \<le> c_mem (c_entries c)"
    using cache_inv_sizes [OF assms(1)] by (intro c_mem_drop_le) simp
  ultimately show "0 \<le> c_projected k sz (c_entries c)" "c_projected k sz (c_entries c) < 2 ^ 63"
    using assms by (auto simp: cache_inv_def c_projected_def)
qed

lemma find_map: "find P (map f xs) = map_option f (find (P \<circ> f) xs)"
  by (induction xs) auto

lemma sim_candidate:
  assumes "sim sh c"
  shows "\<exists>found. skipWhile (Suc (length (sh_items sh))) (\<lambda>a. si_key (sh_heap sh a) = k)
      (\<lambda>a. si_prev (sh_heap sh a)) (lru_back (sh_heap sh, sh_lru sh)) = Some found
    \<and> map_option (payload (sh_heap sh)) found = find (\<lambda>e. si_key e \<noteq> k) (rev (c_entries c))
    \<and> (\<forall>a. found = Some a \<longrightarrow> map_of (sh_items sh) (si_key (sh_heap sh a)) = Some a)"
proof -
  obtain xs where xs: "repr sh xs" "c = cache_of sh xs" using assms by (auto simp: sim_def)
  have "dll (sh_heap sh, sh_lru sh) xs" using xs(1) by (simp add: repr_def)
  then have "skipWhile (Suc (length (sh_items sh))) (\<lambda>a. si_key (sh_heap sh a) = k)
      (\<lambda>a. si_prev (sh_heap sh a)) (lru_back (sh_heap sh, sh_lru sh))
      = Some (find (\<lambda>a. si_key (sh_heap sh a) \<noteq> k) (rev xs))"
    using lru.skip_oldest [of "(sh_heap sh, sh_lru sh)" xs "Suc (length (sh_items sh))"
        "\<lambda>a. si_key (sh_heap sh a) = k"] repr_length [OF xs(1)] by simp
  moreover have "map_of (sh_items sh) (si_key (sh_heap sh a)) = Some a"
    if "find (\<lambda>a. si_key (sh_heap sh a) \<noteq> k) (rev xs) = Some a" for a
  proof -
    have "a \<in> set xs" using find_SomeD [OF that] by simp
    then show ?thesis by (simp add: repr_lookup [OF xs(1)])
  qed
  ultimately show ?thesis using xs(2)
    by (simp add: cache_of_def rev_map find_map comp_def)
qed

lemma length_AList_delete_le: "map_of xs k = Some v \<Longrightarrow> length (AList.delete k xs) < length xs"
  by (induction xs) (auto simp: le_less_trans [OF AList.length_delete_le] less_Suc_eq_le
      AList.length_delete_le split: if_splits)

text \<open>When the budget is exceeded, the loop finds a victim: the oldest entry with another key.\<close>

lemma sim_victim:
  assumes "sim sh c" "sz \<le> c_maxMemoryBytes c" "c_maxMemoryBytes c < c_projected k sz (c_entries c)"
  obtains a where "skipWhile (Suc (length (sh_items sh))) (\<lambda>a. si_key (sh_heap sh a) = k)
      (\<lambda>a. si_prev (sh_heap sh a)) (lru_back (sh_heap sh, sh_lru sh)) = Some (Some a)"
    and "find (\<lambda>e. si_key e \<noteq> k) (rev (c_entries c)) = Some (payload (sh_heap sh) a)"
    and "map_of (sh_items sh) (si_key (sh_heap sh a)) = Some a" "si_key (sh_heap sh a) \<noteq> k"
proof -
  let ?es = "c_entries c"
  obtain found where f: "skipWhile (Suc (length (sh_items sh))) (\<lambda>a. si_key (sh_heap sh a) = k)
      (\<lambda>a. si_prev (sh_heap sh a)) (lru_back (sh_heap sh, sh_lru sh)) = Some found"
    "map_option (payload (sh_heap sh)) found = find (\<lambda>e. si_key e \<noteq> k) (rev ?es)"
    "\<forall>a. found = Some a \<longrightarrow> map_of (sh_items sh) (si_key (sh_heap sh a)) = Some a"
    using sim_candidate [OF assms(1), of k] by blast
  show ?thesis
  proof (cases found)
    case None
    then have "find (\<lambda>e. si_key e \<noteq> k) (rev ?es) = None" using f(2) by simp
    then have "\<forall>e\<in>set ?es. si_key e = k" by (auto simp: find_None_iff)
    then have "c_drop k ?es = []" by (simp add: c_drop_def filter_empty_conv)
    then show ?thesis using assms(2,3) by (simp add: c_projected_def)
  next
    case (Some a)
    then have fe: "find (\<lambda>e. si_key e \<noteq> k) (rev ?es) = Some (payload (sh_heap sh) a)" using f(2) by simp
    then have "si_key (sh_heap sh a) \<noteq> k" using find_SomeD by fastforce
    with f Some fe show ?thesis by (intro that) auto
  qed
qed

lemma sim_evictLoop:
  "sim sh c \<Longrightarrow> 0 \<le> sz \<Longrightarrow> sz \<le> c_maxMemoryBytes c \<Longrightarrow> length (sh_items sh) < n \<Longrightarrow>
   projected = c_projected k sz (c_entries c) \<Longrightarrow>
   es' = c_evict k (projected - c_maxMemoryBytes c) (c_entries c) \<Longrightarrow>
   \<exists>sh' m. evictLoop n k projected ev sh = Some (True, ev + m, sh')
     \<and> sim sh' (c\<lparr>c_entries := es'\<rparr>) \<and> m + length es' = length (c_entries c)"
proof (induction n arbitrary: sh c projected ev)
  case 0
  then show ?case by simp
next
  case (Suc n)
  let ?es = "c_entries c"
  have mx: "sh_maxMemoryBytes sh = c_maxMemoryBytes c" by (rule sim_config [OF Suc.prems(1)])
  show ?case
  proof (cases "c_maxMemoryBytes c < projected")
    case False
    then have "es' = ?es" using Suc.prems(6) by (simp add: c_evict_idle)
    with False mx Suc.prems(1) show ?thesis by simp
  next
    case over: True
    have dk: "distinct (map si_key ?es)" using sim_inv [OF Suc.prems(1)] by (simp add: cache_inv_def)
    obtain a where a: "skipWhile (Suc (length (sh_items sh))) (\<lambda>a. si_key (sh_heap sh a) = k)
        (\<lambda>a. si_prev (sh_heap sh a)) (lru_back (sh_heap sh, sh_lru sh)) = Some (Some a)"
      "find (\<lambda>e. si_key e \<noteq> k) (rev ?es) = Some (payload (sh_heap sh) a)"
      "map_of (sh_items sh) (si_key (sh_heap sh a)) = Some a" "si_key (sh_heap sh a) \<noteq> k"
      using sim_victim [OF Suc.prems(1,3)] over Suc.prems(5) by blast
    let ?e = "payload (sh_heap sh) a" and ?j = "si_key (sh_heap sh a)"
    have le: "c_lookup ?j ?es = Some ?e" by (rule sim_Some [OF Suc.prems(1) a(3)])
    have pj: "c_projected k sz (c_drop ?j ?es) = projected - si_size ?e"
      using c_projected_drop [OF dk le a(4)] Suc.prems(5) by simp
    have s': "sim (deleteLocked a sh) (c\<lparr>c_entries := c_drop ?j ?es\<rparr>)"
      by (rule sim_deleteLocked [OF Suc.prems(1) a(3)])
    have g: "go_int (projected - si_size ?e) = projected - si_size ?e"
      using c_projected_bounds [OF sim_inv [OF s'] Suc.prems(2), of k] Suc.prems(3) pj
      by (intro go_int_id) auto
    have es': "es' = c_evict k (projected - si_size ?e - c_maxMemoryBytes c) (c_drop ?j ?es)"
      using c_evict_step [OF _ a(2) dk, of "projected - c_maxMemoryBytes c"] over Suc.prems(6)
      by (simp add: algebra_simps)
    obtain sh' m where ih: "evictLoop n k (projected - si_size ?e) (Suc ev) (deleteLocked a sh)
        = Some (True, Suc ev + m, sh')"
        "sim sh' (c\<lparr>c_entries := es'\<rparr>)" "m + length es' = length (c_drop ?j ?es)"
      using Suc.IH [OF s' Suc.prems(2), of "projected - si_size ?e" "Suc ev"]
        Suc.prems(3,4) pj es' length_AList_delete_le [OF a(3)] by auto
    show ?thesis
      using over mx a(1) ih g length_c_drop [OF dk le]
      by (intro exI [of _ sh'] exI [of _ "Suc m"]) (auto simp: Let_def)
  qed
qed

lemma evictLoop_keeps:
  "evictLoop n k projected ev sh = Some (ok, m, sh') \<Longrightarrow>
   map_of (sh_items sh') k = map_of (sh_items sh) k
   \<and> (\<forall>a. payload (sh_heap sh') a = payload (sh_heap sh) a)"
proof (induction n arbitrary: projected ev sh)
  case (Suc n)
  let ?sk = "skipWhile (Suc (length (sh_items sh))) (\<lambda>a. si_key (sh_heap sh a) = k)
    (\<lambda>a. si_prev (sh_heap sh a)) (lru_back (sh_heap sh, sh_lru sh))"
  consider "\<not> sh_maxMemoryBytes sh < projected" | "sh_maxMemoryBytes sh < projected" "?sk = Some None"
    | a where "sh_maxMemoryBytes sh < projected" "?sk = Some (Some a)"
    using Suc.prems by (cases ?sk) (auto split: if_splits)
  then show ?case
  proof cases
    case 3
    have "si_key (sh_heap sh a) \<noteq> k" using skipWhile_stops [OF 3(2)] by simp
    moreover have "evictLoop n k (go_int (projected - si_size (sh_heap sh a))) (Suc ev)
        (deleteLocked a sh) = Some (ok, m, sh')"
      using Suc.prems 3 by (simp add: Let_def)
    ultimately show ?thesis using Suc.IH by (fastforce simp: AList.delete_conv)
  qed (use Suc.prems in auto)
qed simp

lemma sim_evictUntilFits:
  assumes "sim sh c" "0 \<le> sz" "sz \<le> c_maxMemoryBytes c"
  shows "\<exists>sh'. evictUntilFitsLocked k (c_projected k sz (c_entries c)) sh = (True, sh')
    \<and> sim sh' (c_shrink k sz c) \<and> map_of (sh_items sh') k = map_of (sh_items sh) k
    \<and> (\<forall>a. payload (sh_heap sh') a = payload (sh_heap sh) a)"
proof -
  let ?p = "c_projected k sz (c_entries c)"
  let ?es = "c_evict k (?p - c_maxMemoryBytes c) (c_entries c)"
  obtain sh' m where e: "evictLoop (Suc (length (sh_items sh))) k ?p 0 sh = Some (True, m, sh')"
      "sim sh' (c\<lparr>c_entries := ?es\<rparr>)" "m + length ?es = length (c_entries c)"
    using sim_evictLoop [OF assms, of "Suc (length (sh_items sh))" ?p k ?es 0] by auto
  have m: "length (c_entries c) - length ?es = m" using e(3) by linarith
  have k: "map_of (sh_items sh') k = map_of (sh_items sh) k"
      "\<forall>a. payload (sh_heap sh') a = payload (sh_heap sh) a"
    using evictLoop_keeps [OF e(1)] by auto
  show ?thesis
  proof (cases "0 < m")
    case True
    have "sim (sh'\<lparr>sh_evictions := sh_evictions sh' + of_nat m\<rparr>) (c_shrink k sz c)"
      using sim_evictions [OF e(2), of "sh_evictions sh' + of_nat m"] sim_counters [OF e(2)] m
      by (simp add: c_shrink_def Let_def)
    with True e(1) k show ?thesis by (auto simp: evictUntilFitsLocked_def)
  next
    case False
    then have "c\<lparr>c_entries := ?es\<rparr> = c_shrink k sz c" using m by (simp add: c_shrink_def Let_def)
    with False e k show ?thesis by (auto simp: evictUntilFitsLocked_def)
  qed
qed

section \<open>Moving an entry to the front\<close>

lemma repr_ConsI:
  assumes "dll (sh_heap sh', sh_lru sh') (a # ys)"
    and "\<And>b. b \<in> set ys \<Longrightarrow> payload (sh_heap sh') b = payload h b"
    and "payload (sh_heap sh') a = e"
    and "mset (sh_items sh') = add_mset (si_key e, a) (mset (map (\<lambda>b. (si_key (h b), b)) ys))"
    and "distinct (si_key e # map (\<lambda>b. si_key (h b)) ys)"
    and "list_all (\<lambda>b. b < sh_fresh sh') (a # ys)"
    and "sh_memoryBytes sh' = si_size e + sum_list (map (\<lambda>b. si_size (h b)) ys)"
    and "sh_ttlCount sh' = (if isZero (si_expiresAt e) then 0 else 1)
           + int (length (filter (\<lambda>b. \<not> isZero (si_expiresAt (h b))) ys))"
  shows "repr sh' (a # ys)"
proof -
  have f: "si_key (sh_heap sh' b) = si_key (h b)" "si_size (sh_heap sh' b) = si_size (h b)"
      "si_expiresAt (sh_heap sh' b) = si_expiresAt (h b)" if "b \<in> set ys" for b
    using payload_eqD [OF assms(2) [OF that]] by auto
  have a: "si_key (sh_heap sh' a) = si_key e" "si_size (sh_heap sh' a) = si_size e"
      "si_expiresAt (sh_heap sh' a) = si_expiresAt e"
    using assms(3) by (metis payload_fields)+
  have "map (\<lambda>b. (si_key (sh_heap sh' b), b)) ys = map (\<lambda>b. (si_key (h b), b)) ys"
    "map (\<lambda>b. si_key (sh_heap sh' b)) ys = map (\<lambda>b. si_key (h b)) ys"
    "map (\<lambda>b. si_size (sh_heap sh' b)) ys = map (\<lambda>b. si_size (h b)) ys"
    "filter (\<lambda>b. \<not> isZero (si_expiresAt (sh_heap sh' b))) ys
      = filter (\<lambda>b. \<not> isZero (si_expiresAt (h b))) ys"
    using f by (auto intro: filter_cong)
  with a assms show ?thesis unfolding repr_def by (simp only: list.map) auto
qed

lemma mset_keys_remove1:
  assumes "repr sh xs" "a \<in> set xs"
  shows "mset (sh_items sh)
    = add_mset (si_key (sh_heap sh a), a) (mset (map (\<lambda>b. (si_key (sh_heap sh b), b)) (remove1 a xs)))"
proof -
  have "mset xs = add_mset a (mset (remove1 a xs))" using assms(2) by simp
  then show ?thesis using assms(1) unfolding repr_def by (simp only: mset_map image_mset_add_mset)
qed

lemma distinct_keys_remove1:
  assumes "repr sh xs" "a \<in> set xs"
  shows "distinct (si_key (sh_heap sh a) # map (\<lambda>b. si_key (sh_heap sh b)) (remove1 a xs))"
proof -
  have "distinct (map (\<lambda>b. si_key (sh_heap sh b)) xs)" using assms(1) by (simp add: repr_def)
  then show ?thesis
    using remove1_filter_inj [of "\<lambda>b. si_key (sh_heap sh b)" xs a] assms(2)
    by (auto simp: distinct_map_filter)
qed

lemma upd_item_simps [simp]:
  "sh_heap (upd_item a f sh) = (sh_heap sh)(a := f (sh_heap sh a))"
  "sh_lru (upd_item a f sh) = sh_lru sh" "sh_items (upd_item a f sh) = sh_items sh"
  "sh_fresh (upd_item a f sh) = sh_fresh sh" "sh_memoryBytes (upd_item a f sh) = sh_memoryBytes sh"
  "sh_ttlCount (upd_item a f sh) = sh_ttlCount sh"
  "sh_maxValueBytes (upd_item a f sh) = sh_maxValueBytes sh"
  "sh_maxMemoryBytes (upd_item a f sh) = sh_maxMemoryBytes sh"
  "sh_itemOverheadBytes (upd_item a f sh) = sh_itemOverheadBytes sh"
  "sh_evictions (upd_item a f sh) = sh_evictions sh" "sh_expirations (upd_item a f sh) = sh_expirations sh"
  by (simp_all add: upd_item_def)

lemma payload_upd [simp]: "b \<noteq> a \<Longrightarrow> payload (h(a := i)) b = payload h b"
  by (simp add: payload_def)

lemma refreshItem_simps:
  fixes existing v expiry sz newCAS sh
  defines "h \<equiv> (sh_heap sh)(existing := (sh_heap sh existing)\<lparr>si_value := v,
     si_expiresAt := expiry, si_size := sz, si_cas := newCAS\<rparr>)"
    and "sh' \<equiv> refreshItem existing v expiry sz newCAS sh"
  shows "sh_heap sh' = fst (moveToFront existing (h, sh_lru sh))"
    "sh_lru sh' = snd (moveToFront existing (h, sh_lru sh))"
    "sh_items sh' = sh_items sh" "sh_fresh sh' = sh_fresh sh"
    "sh_ttlCount sh' = sh_ttlCount sh + (if isZero expiry then 0 else 1)
       - (if isZero (si_expiresAt (sh_heap sh existing)) then 0 else 1)"
    "sh_maxValueBytes sh' = sh_maxValueBytes sh" "sh_maxMemoryBytes sh' = sh_maxMemoryBytes sh"
    "sh_itemOverheadBytes sh' = sh_itemOverheadBytes sh"
    "sh_evictions sh' = sh_evictions sh" "sh_expirations sh' = sh_expirations sh"
  unfolding h_def sh'_def refreshItem_def Let_def by simp_all

lemma sim_refresh:
  assumes s: "sim sh c" and k: "map_of (sh_items sh) k = Some a"
    and inv: "cache_inv (c_put \<lparr>si_key = k, si_value = v, si_expiresAt = x, si_size = sz, si_cas = n\<rparr> c)"
  shows "sim ((refreshItem a v x sz n sh)\<lparr>sh_memoryBytes := c_projected k sz (c_entries c)\<rparr>)
    (c_put \<lparr>si_key = k, si_value = v, si_expiresAt = x, si_size = sz, si_cas = n\<rparr> c)"
    (is "sim ?sh' (c_put ?e c)")
proof -
  obtain xs where xs: "repr sh xs" "c = cache_of sh xs" using s by (auto simp: sim_def)
  have a: "a \<in> set xs" "si_key (sh_heap sh a) = k" using k xs(1) by (auto simp: repr_lookup)
  define h where "h = (sh_heap sh)(a := (sh_heap sh a)\<lparr>si_value := v, si_expiresAt := x,
    si_size := sz, si_cas := n\<rparr>)"
  note rs = refreshItem_simps [of a v x sz n sh, folded h_def]
  have "dll (h, sh_lru sh) xs = dll (sh_heap sh, sh_lru sh) xs" by (rule dll_cong) (simp add: h_def)
  then have d: "dll (moveToFront a (h, sh_lru sh)) (a # remove1 a xs)"
    using xs(1) a(1) by (simp add: repr_def dll_moveToFront)
  have na: "b \<noteq> a" if "b \<in> set (remove1 a xs)" for b
    using that dll_distinct xs(1) by (auto simp: repr_def)
  have pb: "payload (sh_heap ?sh') b = payload (sh_heap sh) b" if "b \<in> set (remove1 a xs)" for b
    using na [OF that] by (simp add: rs h_def)
  have pa: "payload (sh_heap ?sh') a = ?e"
    using a(2) by (simp add: rs) (simp add: h_def payload_def entry.truncate_def)
  have dr: "c_drop k (map (payload (sh_heap sh)) xs) = map (payload (sh_heap sh)) (remove1 a xs)"
    using remove1_filter_inj [of "\<lambda>b. si_key (sh_heap sh b)" xs a] a xs(1)
    by (simp add: repr_def c_drop_def filter_map comp_def)
  have "repr ?sh' (a # remove1 a xs)"
  proof (rule repr_ConsI [where h = "sh_heap sh" and e = ?e])
    show "sh_memoryBytes ?sh' = si_size ?e + sum_list (map (\<lambda>b. si_size (sh_heap sh b)) (remove1 a xs))"
      using xs(2) dr by (simp add: c_projected_def cache_of_def c_mem_def comp_def)
    show "list_all (\<lambda>b. b < sh_fresh ?sh') (a # remove1 a xs)"
      using xs(1) a(1) notin_set_remove1 by (fastforce simp: rs repr_def list_all_iff)
    show "sh_ttlCount ?sh' = (if isZero (si_expiresAt ?e) then 0 else 1)
        + int (length (filter (\<lambda>b. \<not> isZero (si_expiresAt (sh_heap sh b))) (remove1 a xs)))"
      using xs(1) a(1) by (simp add: rs repr_def length_filter_remove1)
  qed (use d pb pa a mset_keys_remove1 [OF xs(1) a(1)] distinct_keys_remove1 [OF xs(1) a(1)]
      in \<open>auto simp: rs\<close>)
  moreover have "c_put ?e c = cache_of ?sh' (a # remove1 a xs)"
    using xs(2) dr pa pb by (simp add: c_put_def cache_of_def rs)
  ultimately show ?thesis using inv by (rule simI)
qed

lemma mset_update_absent:
  "map_of al k = None \<Longrightarrow> mset (AList.update k v al) = add_mset (k, v) (mset al)"
  by (induction al) (auto split: if_splits)

lemma insertItem_simps:
  fixes key v expiry sz newCAS sh
  defines "h \<equiv> (sh_heap sh)(sh_fresh sh := \<lparr>si_key = key, si_value = v, si_expiresAt = expiry,
     si_size = sz, si_cas = newCAS, si_prev = None, si_next = None\<rparr>)"
    and "sh' \<equiv> insertItem key v expiry sz newCAS sh"
  shows "sh_heap sh' = fst (pushFront (sh_fresh sh) (h, sh_lru sh))"
    "sh_lru sh' = snd (pushFront (sh_fresh sh) (h, sh_lru sh))"
    "sh_items sh' = AList.update key (sh_fresh sh) (sh_items sh)" "sh_fresh sh' = Suc (sh_fresh sh)"
    "sh_ttlCount sh' = sh_ttlCount sh + (if isZero expiry then 0 else 1)"
    "sh_maxValueBytes sh' = sh_maxValueBytes sh" "sh_maxMemoryBytes sh' = sh_maxMemoryBytes sh"
    "sh_itemOverheadBytes sh' = sh_itemOverheadBytes sh"
    "sh_evictions sh' = sh_evictions sh" "sh_expirations sh' = sh_expirations sh"
  unfolding h_def sh'_def insertItem_def Let_def by simp_all

lemma sim_insert:
  assumes s: "sim sh c" and k: "map_of (sh_items sh) k = None"
    and inv: "cache_inv (c_put \<lparr>si_key = k, si_value = v, si_expiresAt = x, si_size = sz, si_cas = n\<rparr> c)"
  shows "sim ((insertItem k v x sz n sh)\<lparr>sh_memoryBytes := c_projected k sz (c_entries c)\<rparr>)
    (c_put \<lparr>si_key = k, si_value = v, si_expiresAt = x, si_size = sz, si_cas = n\<rparr> c)"
    (is "sim ?sh' (c_put ?e c)")
proof -
  obtain xs where xs: "repr sh xs" "c = cache_of sh xs" using s by (auto simp: sim_def)
  let ?a = "sh_fresh sh"
  define h where "h = (sh_heap sh)(?a := \<lparr>si_key = k, si_value = v, si_expiresAt = x,
    si_size = sz, si_cas = n, si_prev = None, si_next = None\<rparr>)"
  note ii = insertItem_simps [of k v x sz n sh, folded h_def]
  have fr: "list_all (\<lambda>b. b < ?a) xs" using xs(1) by (simp add: repr_def)
  then have na: "?a \<notin> set xs" by (auto simp: list_all_iff)
  have "dll (h, sh_lru sh) xs = dll (sh_heap sh, sh_lru sh) xs"
    by (rule dll_cong) (use na in \<open>auto simp: h_def\<close>)
  then have d: "dll (pushFront ?a (h, sh_lru sh)) (?a # xs)"
    using xs(1) na by (simp add: repr_def dll_pushFront)
  have pb: "payload (sh_heap ?sh') b = payload (sh_heap sh) b" if "b \<in> set xs" for b
    using that na by (cases "b = ?a") (simp_all add: ii h_def)
  have pa: "payload (sh_heap ?sh') ?a = ?e"
    by (simp add: ii) (simp add: h_def payload_def entry.truncate_def)
  have nk: "k \<notin> si_key ` set (map (payload (sh_heap sh)) xs)"
    using sim_None [OF s k] xs(2) by (simp add: c_lookup_None_iff cache_of_def)
  then have dr: "c_drop k (map (payload (sh_heap sh)) xs) = map (payload (sh_heap sh)) xs"
    by (intro c_drop_absent) (simp only: c_lookup_None_iff not_False_eq_True)
  have "repr ?sh' (?a # xs)"
  proof (rule repr_ConsI [where h = "sh_heap sh" and e = ?e])
    show "sh_memoryBytes ?sh' = si_size ?e + sum_list (map (\<lambda>b. si_size (sh_heap sh b)) xs)"
      using xs(2) dr by (simp add: c_projected_def cache_of_def c_mem_def comp_def)
    show "list_all (\<lambda>b. b < sh_fresh ?sh') (?a # xs)"
      using fr by (auto simp: ii list_all_iff less_Suc_eq)
    show "distinct (si_key ?e # map (\<lambda>b. si_key (sh_heap sh b)) xs)"
      using nk xs(1) by (auto simp: repr_def image_image)
    show "mset (sh_items ?sh') = add_mset (si_key ?e, ?a) (mset (map (\<lambda>b. (si_key (sh_heap sh b), b)) xs))"
      using xs(1) mset_update_absent [OF k] by (simp add: ii repr_def)
    show "sh_ttlCount ?sh' = (if isZero (si_expiresAt ?e) then 0 else 1)
        + int (length (filter (\<lambda>b. \<not> isZero (si_expiresAt (sh_heap sh b))) xs))"
      using xs(1) by (simp add: ii repr_def)
  qed (use d pb pa in \<open>auto simp: ii\<close>)
  moreover have "c_put ?e c = cache_of ?sh' (?a # xs)"
    using xs(2) dr pa pb by (simp add: c_put_def cache_of_def ii)
  ultimately show ?thesis using inv by (rule simI)
qed

lemma sim_touch:
  assumes s: "sim sh c" and k: "map_of (sh_items sh) k = Some a"
  shows "sim (on_lru (moveToFront a) sh) (c_put (payload (sh_heap sh) a) c)" (is "sim ?sh' (c_put ?e c)")
proof -
  obtain xs where xs: "repr sh xs" "c = cache_of sh xs" and inv: "cache_inv c"
    using s by (auto simp: sim_def)
  have a: "a \<in> set xs" "si_key (sh_heap sh a) = k" using k xs(1) by (auto simp: repr_lookup)
  have dr: "c_drop k (map (payload (sh_heap sh)) xs) = map (payload (sh_heap sh)) (remove1 a xs)"
    using remove1_filter_inj [of "\<lambda>b. si_key (sh_heap sh b)" xs a] a xs(1)
    by (simp add: repr_def c_drop_def filter_map comp_def)
  have r: "repr ?sh' (a # remove1 a xs)"
  proof (rule repr_ConsI [where h = "sh_heap sh" and e = ?e])
    show "dll (sh_heap ?sh', sh_lru ?sh') (a # remove1 a xs)"
      using xs(1) a(1) by (simp add: repr_def dll_moveToFront)
    show "sh_memoryBytes ?sh' = si_size ?e + sum_list (map (\<lambda>b. si_size (sh_heap sh b)) (remove1 a xs))"
      using xs(1) a(1) by (simp add: repr_def sum_list_remove1_int)
    show "list_all (\<lambda>b. b < sh_fresh ?sh') (a # remove1 a xs)"
      using xs(1) a(1) notin_set_remove1 by (fastforce simp: repr_def list_all_iff)
    show "sh_ttlCount ?sh' = (if isZero (si_expiresAt ?e) then 0 else 1)
        + int (length (filter (\<lambda>b. \<not> isZero (si_expiresAt (sh_heap sh b))) (remove1 a xs)))"
      using xs(1) a(1) by (simp add: repr_def length_filter_remove1)
  qed (use a mset_keys_remove1 [OF xs(1) a(1)] distinct_keys_remove1 [OF xs(1) a(1)] in auto)
  moreover have "c_put ?e c = cache_of ?sh' (a # remove1 a xs)"
    using xs(2) dr a(2) by (simp add: c_put_def cache_of_def)
  moreover have "cache_inv (c_put ?e c)"
  proof (rule cache_inv_put [OF inv])
    have l: "c_lookup k (c_entries c) = Some ?e" by (rule sim_Some [OF s k])
    then show "c_fits (si_key ?e) (si_size ?e) c"
      using a(2) inv by (simp add: c_fits_def c_projected_def c_mem_drop cache_inv_def)
    show "entry_ok c ?e" using inv c_lookup_key [OF l] by (simp add: cache_inv_def list_all_iff)
  qed
  ultimately show ?thesis by (rule simI)
qed

end
