(* ===== verification/Shard_Correct.thy ===== *)
theory Shard_Correct
  imports Shard_Refinement
begin

text \<open>
  Method by method, the shard computes what the cache specification says and keeps the simulation.
  The lemmas on \<open>setMakeRoom\<close> and \<open>casMakeRoom\<close> show in particular that the branches which report
  \<open>ErrMemoryLimitExceeded\<close> after eviction and \<open>ErrNotFound\<close> after a sweep are never taken.
\<close>

section \<open>Making room\<close>

definition old_size :: "shard \<Rightarrow> key \<Rightarrow> int" where
  "old_size sh k = (case map_of (sh_items sh) k of Some a \<Rightarrow> si_size (sh_heap sh a) | None \<Rightarrow> 0)"

lemma sim_projected:
  assumes "sim sh c"
  shows "sh_memoryBytes sh - old_size sh k + sz = c_projected k sz (c_entries c)"
proof (cases "map_of (sh_items sh) k")
  case None
  then show ?thesis
    using sim_memory [OF assms] sim_None [OF assms None]
    by (simp add: old_size_def c_projected_def c_drop_absent)
next
  case (Some a)
  have "distinct (map si_key (c_entries c))" using sim_inv [OF assms] by (simp add: cache_inv_def)
  with Some show ?thesis
    using sim_memory [OF assms] sim_Some [OF assms Some]
    by (simp add: old_size_def c_projected_def c_mem_drop)
qed

lemma sim_go_projected:
  assumes "sim sh c" "0 \<le> sz" "sz \<le> c_maxMemoryBytes c"
  shows "go_int (sh_memoryBytes sh - old_size sh k + sz) = c_projected k sz (c_entries c)"
  unfolding sim_projected [OF assms(1)]
  using c_projected_bounds [OF sim_inv [OF assms(1)] assms(2,3), of k] by (intro go_int_id) auto

lemma c_sweep_config [simp]:
  "c_maxMemoryBytes (c_sweep now c) = c_maxMemoryBytes c"
  "c_maxMemoryBytes (c_shrink k sz c) = c_maxMemoryBytes c"
  by (auto simp: c_sweep_def c_shrink_def Let_def)

lemma sim_shrink_room:
  assumes s: "sim sh c" and sz: "0 \<le> sz" "sz \<le> c_maxMemoryBytes c"
  shows "\<exists>sh'. evictUntilFitsLocked k (c_projected k sz (c_entries c)) sh = (True, sh')
    \<and> sim sh' (c_shrink k sz c) \<and> map_of (sh_items sh') k = map_of (sh_items sh) k
    \<and> (\<forall>a. si_size (sh_heap sh' a) = si_size (sh_heap sh a))
    \<and> go_int (sh_memoryBytes sh' - old_size sh k + sz) = c_projected k sz (c_entries (c_shrink k sz c))"
proof -
  obtain sh' where e: "evictUntilFitsLocked k (c_projected k sz (c_entries c)) sh = (True, sh')"
      "sim sh' (c_shrink k sz c)" "map_of (sh_items sh') k = map_of (sh_items sh) k"
      "\<forall>a. payload (sh_heap sh') a = payload (sh_heap sh) a"
    using sim_evictUntilFits [OF assms] by blast
  have f: "si_size (sh_heap sh' a) = si_size (sh_heap sh a)" for a
    using e(4) payload_eqD(4) by blast
  then have "old_size sh' k = old_size sh k" using e(3) by (simp add: old_size_def split: option.split)
  with sim_go_projected [OF e(2) sz(1), of k] sz(2) e f show ?thesis by auto
qed

lemma sim_setMakeRoom:
  assumes s: "sim sh c" and sz: "0 \<le> sz" "sz \<le> c_maxMemoryBytes c" and ord: "iterates ord"
  shows "\<exists>sh'. setMakeRoom ord now k (old_size sh k) sz sh
      = (True, c_projected k sz (c_entries (c_room now k sz c)), sh')
    \<and> sim sh' (c_room now k sz c)"
proof (cases "c_fits k sz c")
  case True
  then show ?thesis
    using sim_go_projected [OF s sz, of k] sim_config(2) [OF s] s
    by (simp add: setMakeRoom_def c_room_def c_fits_def Let_def)
next
  case False
  define sh1 where "sh1 = (if 0 < sh_ttlCount sh then removeExpiredLocked ord now sh else sh)"
  have s1: "sim sh1 (c_sweep now c)"
    using sim_removeExpired [OF s ord, of now] sim_no_ttl [OF s, of now] s by (auto simp: sh1_def)
  have sz1: "sz \<le> c_maxMemoryBytes (c_sweep now c)" using sz by simp
  have mk: "setMakeRoom ord now k (old_size sh k) sz sh =
      (let p = c_projected k sz (c_entries (c_sweep now c))
       in if c_maxMemoryBytes c < p then
            let (ok, sh') = evictUntilFitsLocked k p sh1
            in if \<not> ok then (False, p, sh')
               else (True, go_int (sh_memoryBytes sh' - old_size sh1 k + sz), sh')
          else (True, p, sh1))"
    using False sim_go_projected [OF s sz, of k] sim_config(2) [OF s]
      sim_go_projected [OF s1 sz(1) sz1, of k] sim_config(2) [OF s1] sim_no_ttl [OF s, of now]
    by (cases "0 < sh_ttlCount sh")
      (simp_all add: setMakeRoom_def sh1_def c_fits_def Let_def old_size_def split: prod.split)
  show ?thesis
  proof (cases "c_fits k sz (c_sweep now c)")
    case True
    with False mk s1 show ?thesis by (simp add: c_room_def c_fits_def Let_def)
  next
    case F2: False
    with False have r: "c_room now k sz c = c_shrink k sz (c_sweep now c)"
      by (simp add: c_room_def Let_def)
    show ?thesis
      using sim_shrink_room [OF s1 sz(1) sz1, of k] F2 mk unfolding r
      by (auto simp: c_fits_def Let_def)
  qed
qed

lemma c_lookup_sweep:
  assumes "distinct (map si_key (c_entries c))"
    and "c_lookup k (c_entries c) = Some e" "\<not> expired e now"
  shows "c_lookup k (c_entries (c_sweep now c)) = Some e"
  using assms by (simp add: c_sweep_def c_purge_def c_lookup_Some_iff distinct_map_filter)

lemma c_lookup_room:
  assumes "cache_inv c" "c_lookup k (c_entries c) = Some e" "\<not> expired e now"
  shows "c_lookup k (c_entries (c_room now k sz c)) = Some e"
proof -
  have d: "distinct (map si_key (c_entries c))" using assms(1) by (simp add: cache_inv_def)
  have "distinct (map si_key (c_entries (c_sweep now c)))"
    using cache_inv_sweep [OF assms(1)] by (simp add: cache_inv_def)
  then show ?thesis
    using assms c_lookup_sweep [OF d assms(2,3)]
    by (simp add: c_room_def Let_def c_shrink_def c_lookup_evict)
qed

lemma incrMakeRoom_eq: "incrMakeRoom = casMakeRoom"
  by (intro ext) (auto simp: incrMakeRoom_def casMakeRoom_def Let_def split: option.splits prod.splits)

lemma sim_casMakeRoom:
  assumes s: "sim sh c" and sz: "0 \<le> sz" "sz \<le> c_maxMemoryBytes c" and ord: "iterates ord"
    and a: "map_of (sh_items sh) k = Some a" and live: "\<not> expired (sh_heap sh a) now"
  shows "\<exists>sh' a'. casMakeRoom ord now k a sz sh
      = (Inr (a', c_projected k sz (c_entries (c_room now k sz c))), sh')
    \<and> sim sh' (c_room now k sz c) \<and> map_of (sh_items sh') k = Some a'"
proof (cases "c_fits k sz c")
  case True
  then show ?thesis
    using sim_go_projected [OF s sz, of k] sim_config(2) [OF s] s a
    by (simp add: casMakeRoom_def c_room_def c_fits_def Let_def old_size_def)
next
  case False
  define sh1 where "sh1 = (if 0 < sh_ttlCount sh then removeExpiredLocked ord now sh else sh)"
  have s1: "sim sh1 (c_sweep now c)"
    using sim_removeExpired [OF s ord, of now] sim_no_ttl [OF s, of now] s by (auto simp: sh1_def)
  have sz1: "sz \<le> c_maxMemoryBytes (c_sweep now c)" using sz by simp
  have "distinct (map si_key (c_entries c))" using sim_inv [OF s] by (simp add: cache_inv_def)
  then have "c_lookup k (c_entries (c_sweep now c)) = Some (payload (sh_heap sh) a)"
    using sim_Some [OF s a] live by (simp add: c_lookup_sweep)
  then obtain a1 where a1: "map_of (sh_items sh1) k = Some a1"
    using sim_lookup [OF s1, of k] by auto
  have a1s: "\<not> 0 < sh_ttlCount sh \<Longrightarrow> a1 = a" using a a1 by (simp add: sh1_def)
  have mk: "casMakeRoom ord now k a sz sh =
      (let p = c_projected k sz (c_entries (c_sweep now c))
       in if c_maxMemoryBytes c < p then
            let (ok, sh') = evictUntilFitsLocked k p sh1
            in if \<not> ok then (Inl ErrMemoryLimitExceeded, sh')
               else (Inr (a1, go_int (sh_memoryBytes sh' - si_size (sh_heap sh' a1) + sz)), sh')
          else (Inr (a1, p), sh1))"
    using False sim_go_projected [OF s sz, of k] sim_config(2) [OF s]
      sim_go_projected [OF s1 sz(1) sz1, of k] sim_config(2) [OF s1] sim_no_ttl [OF s, of now]
      a a1 a1s
    by (cases "0 < sh_ttlCount sh")
      (simp_all add: casMakeRoom_def sh1_def c_fits_def Let_def old_size_def split: prod.split)
  show ?thesis
  proof (cases "c_fits k sz (c_sweep now c)")
    case True
    with False mk s1 a1 show ?thesis by (simp add: c_room_def c_fits_def Let_def)
  next
    case F2: False
    with False have r: "c_room now k sz c = c_shrink k sz (c_sweep now c)"
      by (simp add: c_room_def Let_def)
    show ?thesis
      using sim_shrink_room [OF s1 sz(1) sz1, of k] F2 mk a1 unfolding r
      by (auto simp: c_fits_def Let_def old_size_def)
  qed
qed

section \<open>The methods\<close>

lemma sim_itemSize:
  assumes "sim sh c" "key_fits sh k" "int (length v) \<le> c_maxValueBytes c"
  shows "itemSize sh k (int (length v)) = c_size c k v" "0 \<le> c_size c k v"
  using assms sim_config [OF assms(1)] sim_inv [OF assms(1)]
  by (auto simp: itemSize_def c_size_def key_fits_def cache_inv_def intro!: go_int_id)

lemma sim_expire_Some:
  assumes "sim sh c" "map_of (sh_items sh) k = Some a"
  shows "sim (if expired (sh_heap sh a) now then deleteLocked a sh else sh) (c_expire now k c)"
  using assms sim_Some [OF assms] sim_deleteLocked [OF assms] by (simp add: c_expire_def)

lemma sim_expire_None:
  assumes "sim sh c" "map_of (sh_items sh) k = None"
  shows "c_expire now k c = c"
  using sim_None [OF assms] by (simp add: c_expire_def)

lemma sim_expire_old:
  assumes "sim sh c"
  shows "\<exists>sh'. (case map_of (sh_items sh) k of
        Some old \<Rightarrow> if expired (sh_heap sh old) now then (deleteLocked old sh, 0)
                    else (sh, si_size (sh_heap sh old))
      | None \<Rightarrow> (sh, 0)) = (sh', old_size sh' k)
    \<and> sim sh' (c_expire now k c) \<and> key_fits sh' = key_fits sh"
proof (cases "map_of (sh_items sh) k")
  case None
  then show ?thesis using assms sim_expire_None [OF assms None] by (simp add: old_size_def)
next
  case (Some a)
  obtain xs where "repr sh xs" using assms by (auto simp: sim_def)
  then have "si_key (sh_heap sh a) = k" using Some by (simp add: repr_lookup)
  then show ?thesis
    using Some sim_expire_Some [OF assms Some, of now]
    by (auto simp: old_size_def AList.delete_conv key_fits_def fun_eq_iff)
qed

lemma cache_inv_put_room:
  assumes "cache_inv c" "si_size e = c_size c (si_key e) (si_value e)"
    and "int (length (si_value e)) \<le> c_maxValueBytes c" "si_size e \<le> c_maxMemoryBytes c"
  shows "cache_inv (c_put e (c_room now (si_key e) (si_size e) c))"
  using assms cache_inv_room [OF assms(1)] c_room_fits [OF assms(1,4)]
  by (intro cache_inv_put) (auto simp: entry_ok_def)

theorem sim_set:
  assumes s: "sim sh c" and ord: "iterates ord" and kf: "key_fits sh k"
    and spec: "spec_set now k v ttl c n = (r, c', n')"
  shows "\<exists>sh'. shard_set ord now k v ttl sh n = (r, sh', n') \<and> sim sh' c'"
proof (cases "c_maxValueBytes c < int (length v)")
  case True
  then show ?thesis using s spec sim_config(1) [OF s] by (simp add: shard_set_def spec_set_def)
next
  case small: False
  obtain sh1 where e: "(case map_of (sh_items sh) k of
        Some old \<Rightarrow> if expired (sh_heap sh old) now then (deleteLocked old sh, 0)
                    else (sh, si_size (sh_heap sh old))
      | None \<Rightarrow> (sh, 0)) = (sh1, old_size sh1 k)"
    and s1: "sim sh1 (c_expire now k c)" and kf1: "key_fits sh1 k"
    using sim_expire_old [OF s, where k = k and now = now] kf by auto
  let ?c = "c_expire now k c" and ?sz = "c_size c k v"
  have sz: "itemSize sh1 k (int (length v)) = ?sz" "0 \<le> ?sz"
    using sim_itemSize [OF s1 kf1, of v] small by auto
  show ?thesis
  proof (cases "c_maxMemoryBytes c < ?sz")
    case True
    then show ?thesis
      using s1 spec small e sz sim_config(1) [OF s] sim_config(2) [OF s1]
      by (auto simp: shard_set_def spec_set_def Let_def)
  next
    case fit: False
    let ?e = "\<lparr>si_key = k, si_value = v, si_expiresAt = expiresAt now ttl, si_size = ?sz, si_cas = n + 1\<rparr>"
    obtain sh2 where mk: "setMakeRoom ord now k (old_size sh1 k) ?sz sh1
          = (True, c_projected k ?sz (c_entries (c_room now k ?sz ?c)), sh2)"
      and s2: "sim sh2 (c_room now k ?sz ?c)"
      using sim_setMakeRoom [OF s1 sz(2) _ ord, where k = k and now = now] fit by auto
    have inv: "cache_inv (c_put ?e (c_room now k ?sz ?c))"
      using cache_inv_put_room [OF sim_inv [OF s1], of ?e now] small fit by simp
    have go: "shard_set ord now k v ttl sh n = (Inr (),
        (case map_of (sh_items sh2) k of
           Some a \<Rightarrow> refreshItem a v (expiresAt now ttl) ?sz (n + 1) sh2
         | None \<Rightarrow> insertItem k v (expiresAt now ttl) ?sz (n + 1) sh2)
        \<lparr>sh_memoryBytes := c_projected k ?sz (c_entries (c_room now k ?sz ?c))\<rparr>, n + 1)"
      using small fit e mk sz sim_config(1) [OF s] sim_config(2) [OF s1]
      by (simp add: shard_set_def Let_def split: option.split)
    have "c' = c_put ?e (c_room now k ?sz ?c)" "r = Inr ()" "n' = n + 1"
      using spec small fit by (auto simp: spec_set_def Let_def)
    then show ?thesis
      using go sim_refresh [OF s2 _ inv] sim_insert [OF s2 _ inv]
      by (auto split: option.split)
  qed
qed

theorem sim_get:
  assumes s: "sim sh c" and spec: "spec_get now k c = (r, c')"
  shows "\<exists>sh'. shard_get now k sh = (r, sh') \<and> sim sh' c'"
proof (cases "map_of (sh_items sh) k")
  case None
  then show ?thesis
    using s spec sim_None [OF s None] sim_expire_None [OF s None]
    by (simp add: shard_get_def spec_get_def)
next
  case (Some a)
  note l = sim_Some [OF s Some]
  show ?thesis
  proof (cases "expired (sh_heap sh a) now")
    case True
    with Some l spec show ?thesis
      using sim_deleteLocked [OF s Some]
      by (auto simp: shard_get_def spec_get_def c_expire_def Let_def)
  next
    case False
    with Some l spec show ?thesis
      using sim_touch [OF s Some]
      by (auto simp: shard_get_def spec_get_def c_expire_def Let_def cloneBytes_def)
  qed
qed

theorem sim_delete:
  assumes s: "sim sh c" and spec: "spec_delete now k c = (r, c')"
  shows "\<exists>sh'. shard_delete now k sh = (r, sh') \<and> sim sh' c'"
proof (cases "map_of (sh_items sh) k")
  case None
  then show ?thesis
    using s spec sim_None [OF s None] sim_expire_None [OF s None]
    by (auto simp: shard_delete_def spec_delete_def c_drop_absent)
next
  case (Some a)
  then show ?thesis
    using sim_Some [OF s Some] sim_deleteLocked [OF s Some] spec
    by (auto simp: shard_delete_def spec_delete_def c_expire_def Let_def split: if_splits)
qed

text \<open>Replacing the value of a live entry, as \<open>cas\<close> and \<open>incr\<close> do once their checks have passed.\<close>

lemma sim_rewrite:
  assumes s: "sim sh c" and ord: "iterates ord" and kf: "key_fits sh k"
    and a: "map_of (sh_items sh) k = Some a" and live: "\<not> expired (sh_heap sh a) now"
    and v: "int (length v) \<le> c_maxValueBytes c" "c_size c k v \<le> c_maxMemoryBytes c"
  obtains sh2 a2 where "casMakeRoom ord now k a (c_size c k v) sh
      = (Inr (a2, c_projected k (c_size c k v) (c_entries (c_room now k (c_size c k v) c))), sh2)"
    and "payload (sh_heap sh2) a2 = payload (sh_heap sh) a"
    and "\<And>x m. sim ((refreshItem a2 v x (c_size c k v) m sh2)
        \<lparr>sh_memoryBytes := c_projected k (c_size c k v) (c_entries (c_room now k (c_size c k v) c))\<rparr>)
      (c_put \<lparr>si_key = k, si_value = v, si_expiresAt = x, si_size = c_size c k v, si_cas = m\<rparr> (c_room now k (c_size c k v) c))"
proof -
  have "0 \<le> c_size c k v" using sim_itemSize [OF s kf v(1)] by simp
  then obtain sh2 a2 where mk: "casMakeRoom ord now k a (c_size c k v) sh
        = (Inr (a2, c_projected k (c_size c k v) (c_entries (c_room now k (c_size c k v) c))), sh2)"
    and s2: "sim sh2 (c_room now k (c_size c k v) c)" and a2: "map_of (sh_items sh2) k = Some a2"
    using sim_casMakeRoom [OF s _ v(2) ord a live] by auto
  have "cache_inv (c_put \<lparr>si_key = k, si_value = v, si_expiresAt = x, si_size = c_size c k v, si_cas = m\<rparr>
      (c_room now k (c_size c k v) c))" for x m
    using cache_inv_put_room [OF sim_inv [OF s],
        of "\<lparr>si_key = k, si_value = v, si_expiresAt = x, si_size = c_size c k v, si_cas = m\<rparr>" now] v by simp
  then show ?thesis
    using sim_refresh [OF s2 a2] mk sim_Some [OF s2 a2] c_lookup_room [OF sim_inv [OF s] sim_Some [OF s a]] live
    by (intro that) auto
qed

theorem sim_cas:
  assumes s: "sim sh c" and ord: "iterates ord" and kf: "key_fits sh k"
    and spec: "spec_cas now k v ttl x c n = (r, c', n')"
  shows "\<exists>sh'. shard_cas ord now k v ttl x sh n = (r, sh', n') \<and> sim sh' c'"
proof (cases "c_maxValueBytes c < int (length v)")
  case True
  then show ?thesis using s spec sim_config(1) [OF s] by (simp add: shard_cas_def spec_cas_def)
next
  case small: False
  show ?thesis
  proof (cases "map_of (sh_items sh) k")
    case None
    with small s spec show ?thesis
      using sim_None [OF s None] sim_expire_None [OF s None] sim_config(1) [OF s]
      by (auto simp: shard_cas_def spec_cas_def)
  next
    case (Some a)
    note l = sim_Some [OF s Some]
    show ?thesis
    proof (cases "expired (sh_heap sh a) now")
      case True
      with Some l small spec show ?thesis
        using sim_deleteLocked [OF s Some] sim_config(1) [OF s]
        by (auto simp: shard_cas_def spec_cas_def c_expire_def Let_def)
    next
      case live: False
      then have ce: "c_expire now k c = c" using l by (simp add: c_expire_def)
      let ?sz = "c_size c k v"
      have sz: "itemSize sh k (int (length v)) = ?sz" "0 \<le> ?sz"
        using sim_itemSize [OF s kf, of v] small by auto
      show ?thesis
      proof (cases "si_cas (sh_heap sh a) \<noteq> x \<or> c_maxMemoryBytes c < ?sz")
        case True
        with Some l small live ce sz s spec sim_config [OF s] show ?thesis
          by (auto simp: shard_cas_def spec_cas_def Let_def)
      next
        case False
        then have v: "int (length v) \<le> c_maxValueBytes c" "?sz \<le> c_maxMemoryBytes c" using small by auto
        let ?e = "\<lparr>si_key = k, si_value = v, si_expiresAt = expiresAt now ttl, si_size = ?sz, si_cas = n + 1\<rparr>"
        obtain sh2 a2 where mk: "casMakeRoom ord now k a ?sz sh
              = (Inr (a2, c_projected k ?sz (c_entries (c_room now k ?sz c))), sh2)"
          and s2: "sim ((refreshItem a2 v (expiresAt now ttl) ?sz (n + 1) sh2)
              \<lparr>sh_memoryBytes := c_projected k ?sz (c_entries (c_room now k ?sz c))\<rparr>) (c_put ?e (c_room now k ?sz c))"
          using sim_rewrite [OF s ord kf Some live v] by metis
        show ?thesis
          using Some l small live ce sz spec sim_config [OF s] False mk s2
          by (auto simp: shard_cas_def spec_cas_def Let_def)
      qed
    qed
  qed
qed

lemma maxUint64_minus: "(maxUint64 - a < b) = (2 ^ 64 \<le> unat a + unat b)"
proof -
  have "unat (maxUint64 - a) = 2 ^ 64 - 1 - unat a"
    by (simp add: maxUint64_def unat_sub word_order.extremum unsigned_minus_1_eq_mask mask_eq_exp_minus_1)
  then show ?thesis using unat_less64 [of a] by (simp add: word_less_nat_alt) linarith
qed

lemma isDecimal_parse:
  assumes "isDecimal v"
  shows "parseUint v = (if decVal 0 v < 2 ^ 64 then Inr (of_nat (decVal 0 v)) else Inl ErrRange)"
  using assms by (intro parseUint_eq) (auto simp: isDecimal_def)

text \<open>The writes of \<open>incr\<close> are those of a refresh that keeps the expiry.\<close>

lemma incr_refresh:
  "on_lru (moveToFront a) (upd_item a (\<lambda>i. i\<lparr>si_value := v, si_size := sz, si_cas := n\<rparr>) sh)
     = refreshItem a v (si_expiresAt (sh_heap sh a)) sz n sh"
  by (simp add: refreshItem_def Let_def upd_item_def)

lemma c_put_keep_expiry:
  "c_put (e\<lparr>si_value := v, si_size := sz, si_cas := n\<rparr>) c =
   c_put \<lparr>si_key = si_key e, si_value = v, si_expiresAt = si_expiresAt e, si_size = sz, si_cas = n\<rparr> c"
  by (cases e) simp

lemma incr_sum:
  assumes "isDecimal old" "decVal 0 old + unat d < 2 ^ 64"
  shows "parseUint old = Inr (of_nat (decVal 0 old))" "unat (of_nat (decVal 0 old) :: uint64) = decVal 0 old"
    "formatUint (of_nat (decVal 0 old) + d) = formatNat (decVal 0 old + unat d)"
proof -
  show p: "parseUint old = Inr (of_nat (decVal 0 old))" using assms isDecimal_parse by simp
  show u: "unat (of_nat (decVal 0 old) :: uint64) = decVal 0 old" using assms by (simp add: unat_of_nat)
  then show "formatUint (of_nat (decVal 0 old) + d) = formatNat (decVal 0 old + unat d)"
    using assms by (simp add: formatUint_def unat_word_ariths)
qed

theorem sim_incr:
  assumes s: "sim sh c" and ord: "iterates ord" and kf: "key_fits sh k"
    and spec: "spec_incr now k d c n = (r, c', n')"
  shows "\<exists>sh'. shard_incr ord now k d sh n = (r, sh', n') \<and> sim sh' c'"
proof (cases "map_of (sh_items sh) k")
  case None
  with s spec show ?thesis
    using sim_None [OF s None] sim_expire_None [OF s None]
    by (auto simp: shard_incr_def spec_incr_def)
next
  case (Some a)
  note l = sim_Some [OF s Some]
  show ?thesis
  proof (cases "expired (sh_heap sh a) now")
    case True
    with Some l spec show ?thesis
      using sim_deleteLocked [OF s Some]
      by (auto simp: shard_incr_def spec_incr_def c_expire_def Let_def)
  next
    case live: False
    then have ce: "c_expire now k c = c" using l by (simp add: c_expire_def)
    let ?old = "si_value (sh_heap sh a)"
    let ?m = "decVal 0 ?old + unat d" let ?v = "formatNat ?m" let ?sz = "c_size c k ?v"
    show ?thesis
    proof (cases "isDecimal ?old \<and> ?m < 2 ^ 64")
      case False
      then show ?thesis
        using Some l live ce s spec isDecimal_parse [of ?old]
        by (auto simp: shard_incr_def spec_incr_def Let_def maxUint64_minus unat_of_nat)
    next
      case True
      note p = incr_sum [OF True [THEN conjunct1] True [THEN conjunct2]]
      show ?thesis
      proof (cases "c_maxValueBytes c < int (length ?v)")
        case big: True
        then show ?thesis
          using Some l live ce s spec True p sim_config [OF s]
          by (auto simp: shard_incr_def spec_incr_def Let_def maxUint64_minus)
      next
        case small: False
        have sz: "itemSize sh k (int (length ?v)) = ?sz" "0 \<le> ?sz"
          using sim_itemSize [OF s kf, of ?v] small by auto
        show ?thesis
        proof (cases "c_maxMemoryBytes c < ?sz")
          case nofit: True
          then show ?thesis
            using Some l live ce s spec True p small sz sim_config [OF s]
            by (auto simp: shard_incr_def spec_incr_def Let_def maxUint64_minus)
        next
          case fit: False
          let ?x = "si_expiresAt (sh_heap sh a)"
          let ?e = "\<lparr>si_key = k, si_value = ?v, si_expiresAt = ?x, si_size = ?sz, si_cas = n + 1\<rparr>"
          obtain sh2 a2 where mk: "casMakeRoom ord now k a ?sz sh
                = (Inr (a2, c_projected k ?sz (c_entries (c_room now k ?sz c))), sh2)"
            and pl: "payload (sh_heap sh2) a2 = payload (sh_heap sh) a"
            and s2: "sim ((refreshItem a2 ?v ?x ?sz (n + 1) sh2)\<lparr>sh_memoryBytes := c_projected k ?sz (c_entries (c_room now k ?sz c))\<rparr>)
              (c_put ?e (c_room now k ?sz c))"
            using sim_rewrite [OF s ord kf Some live, of ?v] small fit by (metis linorder_not_less)
          have x: "si_expiresAt (sh_heap sh2 a2) = ?x" by (rule payload_eqD [OF pl])
          have e: "c' = c_put ?e (c_room now k ?sz c)" "r = Inr (of_nat ?m)" "n' = n + 1"
            using spec l ce True small fit sim_Some [OF s Some] c_lookup_key [OF l]
            by (auto simp: spec_incr_def Let_def c_put_keep_expiry)
          have "shard_incr ord now k d sh n = (Inr (of_nat ?m), (refreshItem a2 ?v ?x ?sz (n + 1) sh2)
              \<lparr>sh_memoryBytes := c_projected k ?sz (c_entries (c_room now k ?sz c))\<rparr>, n + 1)"
            using Some live True p small sz fit mk x sim_config [OF s]
            by (simp add: shard_incr_def Let_def maxUint64_minus incrMakeRoom_eq incr_refresh)
          then show ?thesis using e s2 by auto
        qed
      qed
    qed
  qed
qed

end
