(* ===== verification/Cache_Props.thy ===== *)
theory Cache_Props
  imports Cache_Spec
begin

text \<open>
  What the operations of the cache specification do to the entries a client can see.  An entry is
  visible at time \<open>t\<close> if it is present and has not expired by then.  Everything is stated for
  observation times \<open>t\<close> that are not before the operation.
\<close>

definition c_live :: "time \<Rightarrow> key \<Rightarrow> cache \<Rightarrow> entry option" where
  "c_live now k c =
     (case c_lookup k (c_entries c) of
        Some e \<Rightarrow> if expired e now then None else Some e
      | None \<Rightarrow> None)"

lemma expired_mono: "expired e now \<Longrightarrow> now \<le> t \<Longrightarrow> expired e t"
  by (auto simp: expired_def)

lemma cache_inv_distinct: "cache_inv c \<Longrightarrow> distinct (map si_key (c_entries c))"
  by (simp add: cache_inv_def)

section \<open>Lazy expiry, sweeps and room\<close>

lemma c_live_expire [simp]: "now \<le> t \<Longrightarrow> c_live t j (c_expire now k c) = c_live t j c"
  by (cases "j = k") (auto simp: c_live_def c_expire_def expired_mono split: option.split)

lemma c_lookup_expire: "c_lookup k (c_entries (c_expire now k c)) = c_live now k c"
  by (auto simp: c_live_def c_expire_def split: option.split)

lemma c_lookup_filter:
  assumes "distinct (map si_key es)"
  shows "c_lookup k (filter P es) = (case c_lookup k es of Some e \<Rightarrow> if P e then Some e else None | None \<Rightarrow> None)"
  using assms unfolding c_lookup_def find_filter
proof (induction es)
  case (Cons e es)
  have "find (\<lambda>x. P x \<and> si_key x = k) es = None" if "find (\<lambda>e. si_key e = k) es = None"
    using that by (auto simp: find_None_iff)
  moreover have "si_key e = k \<Longrightarrow> find (\<lambda>e. si_key e = k) es = None"
    using Cons.prems by (auto simp: find_None_iff) (metis imageI)
  ultimately show ?case using Cons by auto
qed simp

lemma c_live_sweep:
  assumes "cache_inv c" "now \<le> t"
  shows "c_live t j (c_sweep now c) = c_live t j c"
  using assms expired_mono [of _ now t]
  by (auto simp: c_live_def c_sweep_def c_purge_def c_lookup_filter cache_inv_distinct
      split: option.split)

lemma c_lookup_evict_other:
  assumes "distinct (map si_key es)"
  shows "c_lookup j (c_evict k over es) \<in> {None, c_lookup j es}"
proof (cases "c_lookup j (c_evict k over es)")
  case (Some e)
  then have "e \<in> set es" "si_key e = j"
    using c_lookup_key [OF Some] c_evict_set by blast+
  then have "c_lookup j es = Some e" using assms by (simp add: c_lookup_Some_iff)
  with Some show ?thesis by simp
qed simp

lemma c_live_shrink:
  assumes "cache_inv c"
  shows "c_live t k (c_shrink k sz c) = c_live t k c"
    and "c_live t j (c_shrink k sz c) \<in> {None, c_live t j c}"
proof -
  note d = cache_inv_distinct [OF assms]
  let ?over = "c_projected k sz (c_entries c) - c_maxMemoryBytes c"
  show "c_live t k (c_shrink k sz c) = c_live t k c"
    using d by (simp add: c_live_def c_shrink_def Let_def c_lookup_evict)
  show "c_live t j (c_shrink k sz c) \<in> {None, c_live t j c}"
    using c_lookup_evict_other [OF d, of j k ?over]
    by (auto simp: c_live_def c_shrink_def Let_def)
qed

lemma c_live_room:
  assumes "cache_inv c" "now \<le> t"
  shows "c_live t k (c_room now k sz c) = c_live t k c"
    and "c_live t j (c_room now k sz c) \<in> {None, c_live t j c}"
    and "c_fits k sz c \<Longrightarrow> c_room now k sz c = c"
  using c_live_sweep [OF assms] c_live_shrink(1) [OF cache_inv_sweep [OF assms(1)]]
    c_live_shrink(2) [OF cache_inv_sweep [OF assms(1)], of t j k sz now]
  by (auto simp: c_room_def Let_def)

lemma c_live_put:
  "c_live t j (c_put e c) = (if j = si_key e then if expired e t then None else Some e else c_live t j c)"
  by (auto simp: c_live_def c_put_def)

lemma c_live_drop: "c_live t j (c\<lparr>c_entries := c_drop k (c_entries c)\<rparr>) = (if j = k then None else c_live t j c)"
  by (auto simp: c_live_def)

section \<open>The operations\<close>

lemma spec_set_ok_iff:
  "fst (spec_set now k v ttl c n) = Inr () \<longleftrightarrow>
   int (length v) \<le> c_maxValueBytes c \<and> c_size c k v \<le> c_maxMemoryBytes c"
  by (auto simp: spec_set_def Let_def)

lemma spec_set_error:
  assumes "spec_set now k v ttl c n = (Inl e, c', n')" "now \<le> t"
  shows "c_live t j c' = c_live t j c" "n' = n"
    and "e = (if c_maxValueBytes c < int (length v) then ErrValueTooLarge else ErrMemoryLimitExceeded)"
  using assms by (auto simp: spec_set_def Let_def split: if_splits)

lemma spec_set_stored:
  assumes "cache_inv c" "spec_set now k v ttl c n = (Inr (), c', n')" "now \<le> t"
  shows "c_live t k c' = (if 0 < ttl \<and> now + ttl \<noteq> 0 \<and> now + ttl \<le> t then None
      else Some \<lparr>si_key = k, si_value = v, si_expiresAt = expiresAt now ttl,
                 si_size = c_size c k v, si_cas = n + 1\<rparr>)"
    and "n' = n + 1"
  using assms
  by (auto simp: spec_set_def Let_def c_live_put expired_def isZero_def expiresAt_def split: if_splits)

lemma spec_set_others:
  assumes "cache_inv c" "spec_set now k v ttl c n = (Inr (), c', n')" "now \<le> t" "j \<noteq> k"
  shows "c_live t j c' \<in> {None, c_live t j c}"
    and "c_fits k (c_size c k v) c \<Longrightarrow> c_live t j c' = c_live t j c"
proof -
  let ?c = "c_expire now k c" and ?sz = "c_size c k v"
  have inv: "cache_inv ?c" by (rule cache_inv_expire [OF assms(1)])
  have l: "c_live t j c' = c_live t j (c_room now k ?sz ?c)"
    using assms(2,4) by (auto simp: spec_set_def Let_def c_live_put split: if_splits)
  show "c_live t j c' \<in> {None, c_live t j c}"
    using c_live_room(2) [OF inv assms(3), of j k ?sz] assms(3) unfolding l by simp
  have "c_fits k ?sz ?c" if "c_fits k ?sz c"
    using that by (auto simp: c_fits_def c_projected_def c_expire_def split: option.split)
  then show "c_live t j c' = c_live t j c" if "c_fits k ?sz c"
    using that c_live_room(3) [OF inv assms(3), of k ?sz] assms(3) unfolding l by simp
qed

lemma spec_get_result:
  "fst (spec_get now k c) = map_option (\<lambda>e. \<lparr>it_Value = si_value e, it_CAS = si_cas e\<rparr>) (c_live now k c)"
  by (auto simp: spec_get_def Let_def c_lookup_expire split: option.split)

lemma spec_get_live:
  assumes "cache_inv c" "now \<le> t"
  shows "c_live t j (snd (spec_get now k c)) = c_live t j c"
proof (cases "c_live now k c")
  case None
  then show ?thesis using assms by (simp add: spec_get_def Let_def c_lookup_expire)
next
  case (Some e)
  then have e: "si_key e = k" "c_lookup k (c_entries c) = Some e"
    by (auto simp: c_live_def dest: c_lookup_key split: option.splits if_splits)
  then have "c_live t k c = (if expired e t then None else Some e)" by (simp add: c_live_def)
  with Some e assms show ?thesis by (auto simp: spec_get_def Let_def c_lookup_expire c_live_put)
qed

lemma spec_delete_result:
  assumes "now \<le> t"
  shows "fst (spec_delete now k c) = (c_live now k c \<noteq> None)"
    and "c_live t j (snd (spec_delete now k c)) = (if j = k then None else c_live t j c)"
  using assms by (auto simp: spec_delete_def Let_def c_lookup_expire c_live_drop)

lemma spec_cas_result:
  "fst (spec_cas now k v ttl x c n) =
     (if c_maxValueBytes c < int (length v) then Inl ErrValueTooLarge
      else case c_live now k c of
        None \<Rightarrow> Inl ErrNotFound
      | Some e \<Rightarrow> if si_cas e \<noteq> x then Inl ErrCasMismatch
          else if c_maxMemoryBytes c < c_size c k v then Inl ErrMemoryLimitExceeded else Inr ())"
  by (auto simp: spec_cas_def Let_def c_lookup_expire split: option.split)

text \<open>A \<open>cas\<close> that succeeds does what \<open>set\<close> does.\<close>

lemma spec_cas_is_set:
  assumes "spec_cas now k v ttl x c n = (Inr (), c', n')"
  shows "spec_set now k v ttl c n = (Inr (), c', n')"
  using assms by (auto simp: spec_cas_def spec_set_def Let_def split: option.splits if_splits)

lemma spec_cas_error:
  assumes "spec_cas now k v ttl x c n = (Inl e, c', n')" "now \<le> t"
  shows "c_live t j c' = c_live t j c" "n' = n"
  using assms by (auto simp: spec_cas_def Let_def split: option.splits if_splits)

lemma spec_incr_error:
  assumes "spec_incr now k d c n = (Inl e, c', n')" "now \<le> t"
  shows "c_live t j c' = c_live t j c" "n' = n"
  using assms by (auto simp: spec_incr_def Let_def split: option.splits if_splits)

lemma spec_incr_ok:
  assumes "cache_inv c" "spec_incr now k d c n = (Inr m, c', n')" "now \<le> t"
  shows "\<exists>e. c_live now k c = Some e \<and> isDecimal (si_value e)
      \<and> unat m = decVal 0 (si_value e) + unat d
      \<and> c_live t k c' = (if expired e t then None
          else Some (e\<lparr>si_value := formatUint m, si_size := c_size c k (formatUint m), si_cas := n + 1\<rparr>))
      \<and> n' = n + 1"
proof -
  obtain e where e: "c_live now k c = Some e"
    using assms(2) by (auto simp: spec_incr_def Let_def c_lookup_expire split: option.splits)
  then have k: "si_key e = k" by (auto simp: c_live_def dest: c_lookup_key split: option.splits if_splits)
  let ?m = "decVal 0 (si_value e) + unat d" and ?v = "formatNat (decVal 0 (si_value e) + unat d)"
  have d: "isDecimal (si_value e)" "?m < 2 ^ 64" "m = of_nat ?m" "n' = n + 1"
      "c' = c_put (e\<lparr>si_value := ?v, si_size := c_size c k ?v, si_cas := n + 1\<rparr>)
        (c_room now k (c_size c k ?v) (c_expire now k c))"
    using assms(2) e by (auto simp: spec_incr_def Let_def c_lookup_expire split: if_splits)
  have u: "unat m = ?m" using d(2) unfolding d(3) by (simp only: unat_of_nat) simp
  then have f: "formatUint m = ?v" by (simp add: formatUint_def)
  show ?thesis using e d u f k by (auto simp: c_live_put expired_def)
qed

lemma spec_cleanup_result:
  assumes "cache_inv c"
  shows "now \<le> t \<Longrightarrow> c_live t j (snd (spec_cleanup now c)) = c_live t j c"
    and "\<forall>e\<in>set (c_entries (snd (spec_cleanup now c))). \<not> expired e now"
    and "fst (spec_cleanup now c) = length (filter (\<lambda>e. expired e now) (c_entries c))"
proof -
  show "now \<le> t \<Longrightarrow> c_live t j (snd (spec_cleanup now c)) = c_live t j c"
    using assms by (simp add: spec_cleanup_def c_live_sweep)
  show "\<forall>e\<in>set (c_entries (snd (spec_cleanup now c))). \<not> expired e now"
    by (simp add: spec_cleanup_def c_sweep_def c_purge_def)
  show "fst (spec_cleanup now c) = length (filter (\<lambda>e. expired e now) (c_entries c))"
    using sum_length_filter_compl [of "\<lambda>e. expired e now" "c_entries c"]
    by (simp add: spec_cleanup_def c_purge_def)
qed

end
