(* ===== verification/Shard_Step.thy ===== *)
theory Shard_Step
  imports Shard_Correct Cache_Props
begin

text \<open>
  All methods of a shard as one step function, its refinement of the cache specification, and the
  contract \<open>kv_component\<close> that the store relies on: what one step of a component may do to its
  keys, to its CAS tokens and to the process-wide counter.  The lemmas about a whole array of such
  components are proved once in the locale; the shard is its interpretation.
\<close>

section \<open>One step of a shard\<close>

datatype shard_op =
    DoSet key bytes duration
  | DoGet key
  | DoDelete key
  | DoIncr key uint64
  | DoCas key bytes duration uint64
  | DoCleanup

datatype shard_res =
    Stored "store_error + unit"
  | Found "Item option"
  | Deleted bool
  | Counted "store_error + uint64"
  | Removed nat

definition shard_step ::
  "range_order \<Rightarrow> time \<Rightarrow> shard_op \<Rightarrow> shard \<Rightarrow> uint64 \<Rightarrow> shard_res \<times> shard \<times> uint64" where
  "shard_step ord now op sh n =
     (case op of
        DoSet k v ttl \<Rightarrow> map_prod Stored id (shard_set ord now k v ttl sh n)
      | DoGet k \<Rightarrow> (case shard_get now k sh of (r, sh) \<Rightarrow> (Found r, sh, n))
      | DoDelete k \<Rightarrow> (case shard_delete now k sh of (r, sh) \<Rightarrow> (Deleted r, sh, n))
      | DoIncr k d \<Rightarrow> map_prod Counted id (shard_incr ord now k d sh n)
      | DoCas k v ttl x \<Rightarrow> map_prod Stored id (shard_cas ord now k v ttl x sh n)
      | DoCleanup \<Rightarrow> (case shard_cleanupExpired ord now sh of (r, sh) \<Rightarrow> (Removed r, sh, n)))"

definition spec_step :: "time \<Rightarrow> shard_op \<Rightarrow> cache \<Rightarrow> uint64 \<Rightarrow> shard_res \<times> cache \<times> uint64" where
  "spec_step now op c n =
     (case op of
        DoSet k v ttl \<Rightarrow> map_prod Stored id (spec_set now k v ttl c n)
      | DoGet k \<Rightarrow> (case spec_get now k c of (r, c) \<Rightarrow> (Found r, c, n))
      | DoDelete k \<Rightarrow> (case spec_delete now k c of (r, c) \<Rightarrow> (Deleted r, c, n))
      | DoIncr k d \<Rightarrow> map_prod Counted id (spec_incr now k d c n)
      | DoCas k v ttl x \<Rightarrow> map_prod Stored id (spec_cas now k v ttl x c n)
      | DoCleanup \<Rightarrow> (case spec_cleanup now c of (r, c) \<Rightarrow> (Removed r, c, n)))"

fun op_key :: "shard_op \<Rightarrow> key option" where
  "op_key (DoSet k v ttl) = Some k"
| "op_key (DoGet k) = Some k"
| "op_key (DoDelete k) = Some k"
| "op_key (DoIncr k d) = Some k"
| "op_key (DoCas k v ttl x) = Some k"
| "op_key DoCleanup = None"

definition op_fits :: "shard \<Rightarrow> shard_op \<Rightarrow> bool" where
  "op_fits sh op \<longleftrightarrow> (case op_key op of None \<Rightarrow> True | Some k \<Rightarrow> key_fits sh k)"

lemma sim_step:
  assumes "sim sh c" "iterates ord" "op_fits sh op" "spec_step now op c n = (r, c', n')"
  shows "\<exists>sh'. shard_step ord now op sh n = (r, sh', n') \<and> sim sh' c'"
proof (cases op)
  case (DoSet k v ttl)
  then show ?thesis
    using assms sim_set [OF assms(1,2), of k now v ttl n]
    by (cases "spec_set now k v ttl c n") (auto simp: spec_step_def shard_step_def op_fits_def)
next
  case (DoGet k)
  then show ?thesis
    using assms sim_get [OF assms(1), of now k]
    by (cases "spec_get now k c") (auto simp: spec_step_def shard_step_def)
next
  case (DoDelete k)
  then show ?thesis
    using assms sim_delete [OF assms(1), of now k]
    by (cases "spec_delete now k c") (auto simp: spec_step_def shard_step_def)
next
  case (DoIncr k d)
  then show ?thesis
    using assms sim_incr [OF assms(1,2), of k now d n]
    by (cases "spec_incr now k d c n") (auto simp: spec_step_def shard_step_def op_fits_def)
next
  case (DoCas k v ttl x)
  then show ?thesis
    using assms sim_cas [OF assms(1,2), of k now v ttl x n]
    by (cases "spec_cas now k v ttl x c n") (auto simp: spec_step_def shard_step_def op_fits_def)
next
  case DoCleanup
  then show ?thesis
    using assms sim_cleanup [OF assms(1,2), of now]
    by (auto simp: spec_step_def shard_step_def split: prod.splits)
qed

lemma shard_step_refines:
  assumes "shard_inv sh" "iterates ord" "op_fits sh op" "shard_step ord now op sh n = (r, sh', n')"
  shows "shard_inv sh'" "spec_step now op (abs_shard sh) n = (r, abs_shard sh', n')"
proof -
  obtain r1 c1 n1 where sp: "spec_step now op (abs_shard sh) n = (r1, c1, n1)" by (metis prod_cases3)
  have "sim sh (abs_shard sh)" using assms(1) by (simp add: sim_iff)
  then obtain sh1 where "shard_step ord now op sh n = (r1, sh1, n1)" "sim sh1 c1"
    using sim_step [OF _ assms(2,3) sp] by blast
  with assms(4) sp show "shard_inv sh'" "spec_step now op (abs_shard sh) n = (r, abs_shard sh', n')"
    by (auto simp: sim_iff)
qed

section \<open>Tokens and keys of a step\<close>

definition c_tokens :: "cache \<Rightarrow> uint64 multiset" where
  "c_tokens c = mset (map si_cas (c_entries c))"

lemma c_tokens_drop: "c_tokens (c\<lparr>c_entries := c_drop k (c_entries c)\<rparr>) \<subseteq># c_tokens c"
  unfolding c_tokens_def c_drop_def
  by (simp add: image_mset_subseteq_mono)

lemma c_tokens_expire: "c_tokens (c_expire now k c) \<subseteq># c_tokens c"
  using c_tokens_drop by (auto simp: c_expire_def split: option.split)

lemma c_tokens_sweep: "c_tokens (c_sweep now c) \<subseteq># c_tokens c"
  unfolding c_tokens_def c_sweep_def c_purge_def by (simp add: image_mset_subseteq_mono)

lemma c_tokens_shrink: "c_tokens (c_shrink k sz c) \<subseteq># c_tokens c"
proof -
  have "mset (c_evict k over es) \<subseteq># mset es" for over es
    by (rule c_evict_split [of es k over])
      (auto simp: multiset_filter_subset intro: subset_mset.add_mono)
  then show ?thesis
    unfolding c_tokens_def c_shrink_def Let_def by (simp add: image_mset_subseteq_mono)
qed

lemma c_tokens_room: "c_tokens (c_room now k sz c) \<subseteq># c_tokens c"
  using c_tokens_sweep [of now c] subset_mset.trans [OF c_tokens_shrink c_tokens_sweep]
  by (auto simp: c_room_def Let_def)

lemma c_tokens_put: "c_tokens (c_put e c) \<subseteq># add_mset (si_cas e) (c_tokens c)"
  using c_tokens_drop [of "si_key e" c] by (simp add: c_put_def c_tokens_def)

lemma c_tokens_put_room:
  "c_tokens (c_put e (c_room now k sz (c_expire now k c))) \<subseteq># add_mset (si_cas e) (c_tokens c)"
  by (rule subset_mset.trans [OF c_tokens_put])
    (simp add: subset_mset.trans [OF c_tokens_room c_tokens_expire])

lemma c_tokens_touch:
  assumes "cache_inv c" "c_lookup k (c_entries c) = Some e"
  shows "c_tokens (c_put e c) = c_tokens c"
proof -
  have e: "e \<in> set (c_entries c)" "si_key e = k" using c_lookup_key [OF assms(2)] by auto
  have "c_drop k (c_entries c) = remove1 e (c_entries c)"
    using remove1_filter_inj [of si_key "c_entries c" e] assms(1) e
    by (simp add: c_drop_def cache_inv_def)
  then have "c_tokens (c_put e c) = image_mset si_cas (add_mset e (mset (remove1 e (c_entries c))))"
    using e(2) by (simp add: c_put_def c_tokens_def)
  also have "add_mset e (mset (remove1 e (c_entries c))) = mset (c_entries c)" using e(1) by simp
  finally show ?thesis by (simp add: c_tokens_def)
qed

text \<open>
  The three writing operations have one shape: either nothing is written and at most an expired
  entry is dropped, or one entry with the next token is put in front.
\<close>

definition write_shape :: "time \<Rightarrow> key \<Rightarrow> cache \<Rightarrow> uint64 \<Rightarrow> cache \<Rightarrow> uint64 \<Rightarrow> bool" where
  "write_shape now k c n c' n' \<longleftrightarrow>
     (n' = n \<and> (c' = c \<or> c' = c_expire now k c))
     \<or> (n' = n + 1 \<and> (\<exists>e sz. si_key e = k \<and> si_cas e = n + 1
          \<and> c' = c_put e (c_room now k sz (c_expire now k c))))"

lemma write_shapeI:
  "si_key e = k \<Longrightarrow> si_cas e = n + 1 \<Longrightarrow>
   write_shape now k c n (c_put e (c_room now k sz (c_expire now k c))) (n + 1)"
  "write_shape now k c n c n" "write_shape now k c n (c_expire now k c) n"
  unfolding write_shape_def by auto

lemma spec_set_shape:
  "spec_set now k v ttl c n = (r, c', n') \<Longrightarrow> write_shape now k c n c' n'"
  unfolding spec_set_def Let_def by (auto split: if_splits intro: write_shapeI)

lemma spec_cas_shape:
  "spec_cas now k v ttl x c n = (r, c', n') \<Longrightarrow> write_shape now k c n c' n'"
  unfolding spec_cas_def Let_def by (auto split: if_splits option.splits intro: write_shapeI)

lemma spec_incr_shape:
  "spec_incr now k d c n = (r, c', n') \<Longrightarrow> write_shape now k c n c' n'"
  unfolding spec_incr_def Let_def
  by (auto split: if_splits option.splits dest: c_lookup_key intro!: write_shapeI)

lemma write_shape_tokens:
  assumes "write_shape now k c n c' n'"
  shows "(n' = n \<and> c_tokens c' \<subseteq># c_tokens c)
       \<or> (n' = n + 1 \<and> c_tokens c' \<subseteq># add_mset (n + 1) (c_tokens c))"
  using assms c_tokens_expire [of now k c] c_tokens_put_room [of _ now k _ c]
  unfolding write_shape_def by (metis subset_mset.order_refl)

lemma spec_step_tokens:
  assumes "cache_inv c" "spec_step now op c n = (r, c', n')"
  shows "(n' = n \<and> c_tokens c' \<subseteq># c_tokens c)
       \<or> (n' = n + 1 \<and> c_tokens c' \<subseteq># add_mset (n + 1) (c_tokens c))"
proof (cases op)
  case (DoGet k)
  let ?c = "c_expire now k c"
  have "c_tokens (snd (spec_get now k c)) \<subseteq># c_tokens c"
    using c_tokens_touch [OF cache_inv_expire [OF assms(1), of now k], of k]
      c_tokens_expire [of now k c]
    by (auto simp: spec_get_def Let_def split: option.split)
  with DoGet assms(2) show ?thesis by (auto simp: spec_step_def split: prod.splits)
next
  case (DoDelete k)
  have "c_tokens (snd (spec_delete now k c)) \<subseteq># c_tokens c"
    using subset_mset.trans [OF c_tokens_drop c_tokens_expire]
    by (simp add: spec_delete_def Let_def)
  with DoDelete assms(2) show ?thesis by (auto simp: spec_step_def split: prod.splits)
next
  case DoCleanup
  then show ?thesis using assms(2) c_tokens_sweep by (auto simp: spec_step_def spec_cleanup_def)
next
  case (DoSet k v ttl)
  then show ?thesis using assms(2)
    by (cases "spec_set now k v ttl c n")
      (auto simp: spec_step_def dest!: spec_set_shape write_shape_tokens)
next
  case (DoIncr k d)
  then show ?thesis using assms(2)
    by (cases "spec_incr now k d c n")
      (auto simp: spec_step_def dest!: spec_incr_shape write_shape_tokens)
next
  case (DoCas k v ttl x)
  then show ?thesis using assms(2)
    by (cases "spec_cas now k v ttl x c n")
      (auto simp: spec_step_def dest!: spec_cas_shape write_shape_tokens)
qed

lemma c_sweep_set: "set (c_entries (c_sweep now c)) \<subseteq> set (c_entries c)"
  by (auto simp: c_sweep_def c_purge_def)

lemma c_shrink_set: "set (c_entries (c_shrink k sz c)) \<subseteq> set (c_entries c)"
  by (simp add: c_shrink_def Let_def c_evict_set)

lemma c_room_set: "set (c_entries (c_room now k sz c)) \<subseteq> set (c_entries c)"
  using c_sweep_set [of now c] c_shrink_set [of k sz "c_sweep now c"]
  by (auto simp: c_room_def Let_def)

lemma c_expire_set: "set (c_entries (c_expire now k c)) \<subseteq> set (c_entries c)"
  by (auto simp: c_expire_def split: option.split)

lemma write_shape_keys:
  assumes "write_shape now k c n c' n'"
  shows "si_key ` set (c_entries c') \<subseteq> insert k (si_key ` set (c_entries c))"
  using assms c_expire_set [of now k c] c_room_set [of now k _ "c_expire now k c"]
  unfolding write_shape_def c_put_def by fastforce

lemma spec_step_keys:
  assumes "spec_step now op c n = (r, c', n')"
  shows "si_key ` set (c_entries c') \<subseteq> set_option (op_key op) \<union> si_key ` set (c_entries c)"
proof (cases op)
  case (DoGet k)
  have "si_key ` set (c_entries (snd (spec_get now k c))) \<subseteq> si_key ` set (c_entries c)"
    using c_expire_set [of now k c]
    by (auto simp: spec_get_def Let_def c_put_def dest!: c_lookup_key split: option.split)
  with DoGet assms show ?thesis by (auto simp: spec_step_def split: prod.splits)
next
  case (DoDelete k)
  have "si_key ` set (c_entries (snd (spec_delete now k c))) \<subseteq> si_key ` set (c_entries c)"
    using c_expire_set [of now k c] by (auto simp: spec_delete_def Let_def)
  with DoDelete assms show ?thesis by (auto simp: spec_step_def split: prod.splits)
next
  case DoCleanup
  then show ?thesis using assms by (auto simp: spec_step_def spec_cleanup_def c_sweep_def c_purge_def)
next
  case (DoSet k v ttl)
  then show ?thesis using assms
    by (cases "spec_set now k v ttl c n")
      (auto simp: spec_step_def dest!: spec_set_shape write_shape_keys)
next
  case (DoIncr k d)
  then show ?thesis using assms
    by (cases "spec_incr now k d c n")
      (auto simp: spec_step_def dest!: spec_incr_shape write_shape_keys)
next
  case (DoCas k v ttl x)
  then show ?thesis using assms
    by (cases "spec_cas now k v ttl x c n")
      (auto simp: spec_step_def dest!: spec_cas_shape write_shape_keys)
qed

text \<open>An entry after a step was there before or carries the next token.\<close>

lemma write_shape_entries:
  assumes "write_shape now k c n c' n'"
  shows "set (c_entries c') \<subseteq> set (c_entries c) \<union> {e. si_cas e = n + 1 \<and> n' = n + 1}"
  using assms c_expire_set [of now k c] c_room_set [of now k _ "c_expire now k c"]
  unfolding write_shape_def c_put_def by fastforce

lemma spec_step_entries:
  assumes "spec_step now op c n = (r, c', n')"
  shows "set (c_entries c') \<subseteq> set (c_entries c) \<union> {e. si_cas e = n + 1 \<and> n' = n + 1}"
proof (cases op)
  case (DoGet k)
  have "set (c_entries (snd (spec_get now k c))) \<subseteq> set (c_entries c)"
    using c_expire_set [of now k c]
    by (auto simp: spec_get_def Let_def c_put_def dest!: c_lookup_key split: option.split)
  with DoGet assms show ?thesis by (auto simp: spec_step_def split: prod.splits)
next
  case (DoDelete k)
  have "set (c_entries (snd (spec_delete now k c))) \<subseteq> set (c_entries c)"
    using c_expire_set [of now k c] by (auto simp: spec_delete_def Let_def)
  with DoDelete assms show ?thesis by (auto simp: spec_step_def split: prod.splits)
next
  case DoCleanup
  then show ?thesis using assms by (auto simp: spec_step_def spec_cleanup_def c_sweep_def c_purge_def)
next
  case (DoSet k v ttl)
  then show ?thesis using assms
    by (cases "spec_set now k v ttl c n")
      (auto simp: spec_step_def dest!: spec_set_shape write_shape_entries)
next
  case (DoIncr k d)
  then show ?thesis using assms
    by (cases "spec_incr now k d c n")
      (auto simp: spec_step_def dest!: spec_incr_shape write_shape_entries)
next
  case (DoCas k v ttl x)
  then show ?thesis using assms
    by (cases "spec_cas now k v ttl x c n")
      (auto simp: spec_step_def dest!: spec_cas_shape write_shape_entries)
qed

text \<open>No step writes the configuration.\<close>

definition c_limits :: "cache \<Rightarrow> int \<times> int \<times> int" where
  "c_limits c = (c_maxValueBytes c, c_maxMemoryBytes c, c_itemOverheadBytes c)"

lemma c_limits_simps [simp]:
  "c_limits (c_expire now k c) = c_limits c" "c_limits (c_room now k sz c) = c_limits c"
  "c_limits (c_put e c) = c_limits c" "c_limits (c_sweep now c) = c_limits c"
  "c_limits (c\<lparr>c_entries := es\<rparr>) = c_limits c"
  by (simp_all add: c_limits_def) (simp_all add: c_sweep_def)

lemma write_shape_limits: "write_shape now k c n c' n' \<Longrightarrow> c_limits c' = c_limits c"
  unfolding write_shape_def by auto

lemma spec_step_limits:
  assumes "spec_step now op c n = (r, c', n')"
  shows "c_limits c' = c_limits c"
proof (cases op)
  case (DoGet k)
  then show ?thesis using assms
    by (auto simp: spec_step_def spec_get_def Let_def split: option.splits prod.splits)
next
  case (DoSet k v ttl)
  then show ?thesis using assms
    by (cases "spec_set now k v ttl c n")
      (auto simp: spec_step_def dest!: spec_set_shape write_shape_limits)
next
  case (DoIncr k d)
  then show ?thesis using assms
    by (cases "spec_incr now k d c n")
      (auto simp: spec_step_def dest!: spec_incr_shape write_shape_limits)
next
  case (DoCas k v ttl x)
  then show ?thesis using assms
    by (cases "spec_cas now k v ttl x c n")
      (auto simp: spec_step_def dest!: spec_cas_shape write_shape_limits)
qed (use assms in \<open>auto simp: spec_step_def spec_delete_def spec_cleanup_def Let_def\<close>)

section \<open>The contract of a component of the store\<close>

text \<open>
  Tokens of an array of components: no token occurs twice, and none is above the counter.
\<close>

definition fresh_tokens :: "uint64 multiset \<Rightarrow> uint64 \<Rightarrow> bool" where
  "fresh_tokens M n \<longleftrightarrow> (\<forall>t. count M t \<le> 1) \<and> (\<forall>t\<in>#M. t \<le> n)"

lemma fresh_tokens_subset: "fresh_tokens M n \<Longrightarrow> M' \<subseteq># M \<Longrightarrow> fresh_tokens M' n"
  unfolding fresh_tokens_def by (meson mset_subset_eqD mset_subset_eq_count order_trans)

lemma fresh_tokens_next:
  assumes "fresh_tokens M n" "n \<noteq> maxUint64"
  shows "fresh_tokens (add_mset (n + 1) M) (n + 1)"
proof -
  have lt: "n < n + 1" by (rule word_succ_gt [OF assms(2)])
  then have "n + 1 \<notin># M" using assms(1) by (auto simp: fresh_tokens_def)
  then have "count M (n + 1) = 0" by (simp add: not_in_iff)
  with assms(1) lt show ?thesis by (auto simp: fresh_tokens_def)
qed

lemma sum_list_update_mset:
  fixes f :: "'a \<Rightarrow> 'b multiset"
  shows "i < length xs \<Longrightarrow> sum_list (map f (xs[i := x])) + f (xs ! i) = sum_list (map f xs) + f x"
proof (induction xs arbitrary: i)
  case (Cons a xs)
  then show ?case by (cases i) (auto simp: ac_simps)
qed simp

lemma sum_list_update_le:
  fixes f :: "'a \<Rightarrow> 'b multiset"
  assumes "i < length xs" "f x \<subseteq># f (xs ! i) + A"
  shows "sum_list (map f (xs[i := x])) \<subseteq># sum_list (map f xs) + A"
proof -
  have "sum_list (map f (xs[i := x])) + f (xs ! i) = sum_list (map f xs) + f x"
    by (rule sum_list_update_mset [OF assms(1)])
  also have "\<dots> \<subseteq># sum_list (map f xs) + (f (xs ! i) + A)" using assms(2) by simp
  finally have "sum_list (map f (xs[i := x])) + f (xs ! i) \<subseteq># (sum_list (map f xs) + A) + f (xs ! i)"
    by (simp add: ac_simps)
  then show ?thesis by simp
qed

locale kv_component =
  fixes inv :: "'s \<Rightarrow> bool"
    and entries :: "'s \<Rightarrow> entry set"
    and keys :: "'s \<Rightarrow> key set"
    and tokens :: "'s \<Rightarrow> uint64 multiset"
    and memory :: "'s \<Rightarrow> int"
    and budget :: "'s \<Rightarrow> int"
    and fits :: "'s \<Rightarrow> shard_op \<Rightarrow> bool"
    and step :: "range_order \<Rightarrow> time \<Rightarrow> shard_op \<Rightarrow> 's \<Rightarrow> uint64 \<Rightarrow> shard_res \<times> 's \<times> uint64"
  assumes inv_memory: "inv s \<Longrightarrow> 0 \<le> memory s \<and> memory s \<le> budget s"
    and step_inv: "inv s \<Longrightarrow> iterates ord \<Longrightarrow> fits s op \<Longrightarrow> step ord now op s n = (r, s', n') \<Longrightarrow> inv s'"
    and step_budget: "inv s \<Longrightarrow> iterates ord \<Longrightarrow> fits s op \<Longrightarrow> step ord now op s n = (r, s', n') \<Longrightarrow>
        budget s' = budget s"
    and step_fits: "inv s \<Longrightarrow> iterates ord \<Longrightarrow> fits s op \<Longrightarrow> step ord now op s n = (r, s', n') \<Longrightarrow>
        fits s' = fits s"
    and step_keys: "inv s \<Longrightarrow> iterates ord \<Longrightarrow> fits s op \<Longrightarrow> step ord now op s n = (r, s', n') \<Longrightarrow>
        keys s' \<subseteq> set_option (op_key op) \<union> keys s"
    and step_entries: "inv s \<Longrightarrow> iterates ord \<Longrightarrow> fits s op \<Longrightarrow> step ord now op s n = (r, s', n') \<Longrightarrow>
        entries s' \<subseteq> entries s \<union> {e. si_cas e = n + 1 \<and> n' = n + 1}"
    and step_tokens: "inv s \<Longrightarrow> iterates ord \<Longrightarrow> fits s op \<Longrightarrow> step ord now op s n = (r, s', n') \<Longrightarrow>
        n' = n \<and> tokens s' \<subseteq># tokens s \<or> n' = n + 1 \<and> tokens s' \<subseteq># add_mset (n + 1) (tokens s)"
begin

lemma array_memory:
  "list_all inv ss \<Longrightarrow> 0 \<le> sum_list (map memory ss) \<and> sum_list (map memory ss) \<le> sum_list (map budget ss)"
  by (induction ss) (auto dest!: inv_memory)

lemma array_inv:
  assumes "list_all inv ss" "i < length ss" "iterates ord" "fits (ss ! i) op"
    and "step ord now op (ss ! i) n = (r, s', n')"
  shows "list_all inv (ss[i := s'])"
  using assms step_inv [OF _ assms(3,4,5)] by (simp add: list_all_length nth_list_update)

lemma array_budget:
  assumes "list_all inv ss" "i < length ss" "iterates ord" "fits (ss ! i) op"
    and "step ord now op (ss ! i) n = (r, s', n')"
  shows "map budget (ss[i := s']) = map budget ss"
proof -
  have "budget s' = budget (ss ! i)" using assms step_budget by (simp add: list_all_length)
  then show ?thesis using assms(2) by (simp add: map_update list_update_same_conv)
qed

lemma array_fits:
  assumes "list_all inv ss" "i < length ss" "iterates ord" "fits (ss ! i) op"
    and "step ord now op (ss ! i) n = (r, s', n')"
  shows "map fits (ss[i := s']) = map fits ss"
proof -
  have "fits s' = fits (ss ! i)" using assms step_fits by (simp add: list_all_length)
  then show ?thesis using assms(2) by (simp add: map_update list_update_same_conv)
qed

lemma array_keys:
  assumes "list_all inv ss" "i < length ss" "iterates ord" "fits (ss ! i) op"
    and "step ord now op (ss ! i) n = (r, s', n')"
    and "\<forall>j<length ss. \<forall>k\<in>keys (ss ! j). route k = j" "\<forall>k\<in>set_option (op_key op). route k = i"
  shows "\<forall>j<length (ss[i := s']). \<forall>k\<in>keys (ss[i := s'] ! j). route k = j"
proof -
  have "keys s' \<subseteq> set_option (op_key op) \<union> keys (ss ! i)"
    using assms step_keys by (simp add: list_all_length)
  then show ?thesis using assms(2,6,7) by (auto simp: nth_list_update)
qed

lemma array_entries:
  assumes "list_all inv ss" "i < length ss" "iterates ord" "fits (ss ! i) op"
    and "step ord now op (ss ! i) n = (r, s', n')"
  shows "\<Union> (set (map entries (ss[i := s'])))
    \<subseteq> \<Union> (set (map entries ss)) \<union> {e. si_cas e = n + 1 \<and> n' = n + 1}"
proof -
  have "entries s' \<subseteq> entries (ss ! i) \<union> {e. si_cas e = n + 1 \<and> n' = n + 1}"
    using assms step_entries by (simp add: list_all_length)
  moreover have "set (ss[i := s']) \<subseteq> insert s' (set ss)" by (rule set_update_subset_insert)
  moreover have "ss ! i \<in> set ss" using assms(2) by simp
  ultimately show ?thesis by auto
qed

lemma array_tokens:
  assumes "list_all inv ss" "i < length ss" "iterates ord" "fits (ss ! i) op"
    and "step ord now op (ss ! i) n = (r, s', n')"
    and "fresh_tokens (sum_list (map tokens ss)) n" "n \<noteq> maxUint64"
  shows "fresh_tokens (sum_list (map tokens (ss[i := s']))) n'"
proof -
  have "n' = n \<and> tokens s' \<subseteq># tokens (ss ! i)
      \<or> n' = n + 1 \<and> tokens s' \<subseteq># add_mset (n + 1) (tokens (ss ! i))"
    using assms(1-5) step_tokens by (simp add: list_all_length)
  then show ?thesis
  proof (elim disjE conjE)
    assume "n' = n" "tokens s' \<subseteq># tokens (ss ! i)"
    then show ?thesis
      using sum_list_update_le [OF assms(2), of tokens s' "{#}"] assms(6) fresh_tokens_subset by auto
  next
    assume n: "n' = n + 1" "tokens s' \<subseteq># add_mset (n + 1) (tokens (ss ! i))"
    then have "sum_list (map tokens (ss[i := s'])) \<subseteq># add_mset (n + 1) (sum_list (map tokens ss))"
      using sum_list_update_le [OF assms(2), of tokens s' "{#n + 1#}"] by simp
    with fresh_tokens_next [OF assms(6,7)] n(1) show ?thesis by (auto intro: fresh_tokens_subset)
  qed
qed

end

section \<open>The shard satisfies the contract\<close>

definition shard_keys :: "shard \<Rightarrow> key set" where
  "shard_keys sh = set (map fst (sh_items sh))"

definition shard_entries :: "shard \<Rightarrow> entry set" where
  "shard_entries sh = set (c_entries (abs_shard sh))"

definition shard_tokens :: "shard \<Rightarrow> uint64 multiset" where
  "shard_tokens sh = c_tokens (abs_shard sh)"

lemma shard_keys_abs: "shard_inv sh \<Longrightarrow> shard_keys sh = si_key ` set (c_entries (abs_shard sh))"
  unfolding shard_keys_def by (rule sim_keys) (simp add: sim_iff)

lemma shard_memory_abs: "shard_inv sh \<Longrightarrow> sh_memoryBytes sh = c_mem (c_entries (abs_shard sh))"
  by (rule sim_memory) (simp add: sim_iff)

lemma c_limits_abs:
  "c_limits (abs_shard sh) = (sh_maxValueBytes sh, sh_maxMemoryBytes sh, sh_itemOverheadBytes sh)"
  by (simp add: c_limits_def abs_shard_def cache_of_def)

lemma shard_memory_bounds:
  assumes "shard_inv sh"
  shows "0 \<le> sh_memoryBytes sh \<and> sh_memoryBytes sh \<le> sh_maxMemoryBytes sh"
proof -
  have inv: "cache_inv (abs_shard sh)" using assms by (simp add: shard_inv_def)
  have "0 \<le> c_mem (c_entries (abs_shard sh))"
    using cache_inv_sizes [OF inv] by (intro c_mem_nonneg) simp
  with inv shard_memory_abs [OF assms] show ?thesis
    by (simp add: cache_inv_def abs_shard_def cache_of_def)
qed

lemma shard_step_limits:
  assumes "shard_inv sh" "iterates ord" "op_fits sh op" "shard_step ord now op sh n = (r, sh', n')"
  shows "sh_maxValueBytes sh' = sh_maxValueBytes sh" "sh_maxMemoryBytes sh' = sh_maxMemoryBytes sh"
    "sh_itemOverheadBytes sh' = sh_itemOverheadBytes sh"
  using spec_step_limits [OF shard_step_refines(2) [OF assms]] by (simp_all add: c_limits_abs)

interpretation shards: kv_component shard_inv shard_entries shard_keys shard_tokens sh_memoryBytes
  sh_maxMemoryBytes op_fits shard_step
proof (unfold_locales, goal_cases)
  case (1 s)
  then show ?case by (rule shard_memory_bounds)
next
  case (2 s ord op now n r s' n')
  then show ?case by (rule shard_step_refines)
next
  case (3 s ord op now n r s' n')
  then show ?case by (rule shard_step_limits)
next
  case (4 s ord op now n r s' n')
  then show ?case
    using shard_step_limits [OF 4] by (auto simp: op_fits_def key_fits_def fun_eq_iff split: option.split)
next
  case (5 s ord op now n r s' n')
  then show ?case
    using spec_step_keys [OF shard_step_refines(2) [OF 5]] shard_step_refines(1) [OF 5]
    by (simp add: shard_keys_abs)
next
  case (6 s ord op now n r s' n')
  then show ?case
    using spec_step_entries [OF shard_step_refines(2) [OF 6]] by (simp add: shard_entries_def)
next
  case (7 s ord op now n r s' n')
  then have "cache_inv (abs_shard s)" by (simp add: shard_inv_def)
  then show ?case
    using spec_step_tokens [OF _ shard_step_refines(2) [OF 7]] by (simp add: shard_tokens_def)
qed

end
