(* ===== verification/Store.thy ===== *)
theory Store
  imports Shard_Step
begin

unbundle bit_operations_syntax

text \<open>
  The sharded store of \<open>internal/store/store.go\<close>: configuration, the FNV-1a hash that routes a key
  to a shard, the public methods, and the aggregated statistics.  The store's state is its array of
  shards and the process-wide CAS counter.

  Shards have their own locks, so concurrent calls interleave shard method by shard method.  The
  relation \<open>store_step\<close> lets any shard take any method call that is routed to it; \<open>reachable\<close>
  collects the stores that any interleaving of such calls can produce.
\<close>

section \<open>Configuration\<close>

record Config =
  cf_MaxValueBytes :: int
  cf_MaxMemoryBytes :: int
  cf_ItemOverheadBytes :: int
  cf_Shards :: int

definition DefaultShards :: int where
  "DefaultShards = 16"

definition DefaultConfig :: Config where
  "DefaultConfig = \<lparr>cf_MaxValueBytes = 1024 * 1024, cf_MaxMemoryBytes = 64 * 1024 * 1024,
     cf_ItemOverheadBytes = 64, cf_Shards = DefaultShards\<rparr>"

definition normalizeConfig :: "Config \<Rightarrow> Config" where
  "normalizeConfig config =
     (let defaults = DefaultConfig;
          config = (if cf_MaxValueBytes config \<le> 0
                    then config\<lparr>cf_MaxValueBytes := cf_MaxValueBytes defaults\<rparr> else config);
          config = (if cf_MaxMemoryBytes config \<le> 0
                    then config\<lparr>cf_MaxMemoryBytes := cf_MaxMemoryBytes defaults\<rparr> else config);
          config = (if cf_ItemOverheadBytes config < 0
                    then config\<lparr>cf_ItemOverheadBytes := cf_ItemOverheadBytes defaults\<rparr> else config);
          config = (if cf_Shards config \<le> 0
                    then config\<lparr>cf_Shards := cf_Shards defaults\<rparr> else config)
      in config)"

section \<open>State and construction\<close>

record Store =
  st_shards :: "shard list"
  st_cas :: uint64

definition perShardMemory :: "Config \<Rightarrow> int" where
  "perShardMemory config =
     (let m = cf_MaxMemoryBytes config div cf_Shards config in if m < 1 then 1 else m)"

definition New :: "Config \<Rightarrow> Store" where
  "New config =
     (let config = normalizeConfig config
      in \<lparr>st_shards = replicate (nat (cf_Shards config))
            (newShard (cf_MaxValueBytes config) (cf_ItemOverheadBytes config) (perShardMemory config)),
          st_cas = 0\<rparr>)"

section \<open>Routing\<close>

fun fnvLoop :: "string \<Rightarrow> 32 word \<Rightarrow> 32 word" where
  "fnvLoop [] h = h"
| "fnvLoop (c # cs) h = fnvLoop cs ((h XOR of_nat (byte c)) * 16777619)"

definition shardIndex :: "key \<Rightarrow> nat \<Rightarrow> 32 word" where
  "shardIndex key n = fnvLoop key 2166136261 mod of_nat n"

definition shardFor :: "key \<Rightarrow> Store \<Rightarrow> nat" where
  "shardFor key st = unat (shardIndex key (length (st_shards st)))"

section \<open>Public methods\<close>

definition put_shard :: "nat \<Rightarrow> shard \<Rightarrow> uint64 \<Rightarrow> Store \<Rightarrow> Store" where
  "put_shard i sh n st = st\<lparr>st_shards := (st_shards st)[i := sh], st_cas := n\<rparr>"

definition Store_Set ::
  "range_order \<Rightarrow> time \<Rightarrow> key \<Rightarrow> bytes \<Rightarrow> duration \<Rightarrow> Store \<Rightarrow> (store_error + unit) \<times> Store" where
  "Store_Set ord now key value ttl st =
     (let i = shardFor key st;
          (r, sh, n) = shard_set ord now key value ttl (st_shards st ! i) (st_cas st)
      in (r, put_shard i sh n st))"

definition Store_Get :: "time \<Rightarrow> key \<Rightarrow> Store \<Rightarrow> Item option \<times> Store" where
  "Store_Get now key st =
     (let i = shardFor key st; (r, sh) = shard_get now key (st_shards st ! i)
      in (r, put_shard i sh (st_cas st) st))"

definition Store_Delete :: "time \<Rightarrow> key \<Rightarrow> Store \<Rightarrow> bool \<times> Store" where
  "Store_Delete now key st =
     (let i = shardFor key st; (r, sh) = shard_delete now key (st_shards st ! i)
      in (r, put_shard i sh (st_cas st) st))"

definition Store_Incr ::
  "range_order \<Rightarrow> time \<Rightarrow> key \<Rightarrow> uint64 \<Rightarrow> Store \<Rightarrow> (store_error + uint64) \<times> Store" where
  "Store_Incr ord now key delta st =
     (let i = shardFor key st;
          (r, sh, n) = shard_incr ord now key delta (st_shards st ! i) (st_cas st)
      in (r, put_shard i sh n st))"

definition Store_Cas ::
  "range_order \<Rightarrow> time \<Rightarrow> key \<Rightarrow> bytes \<Rightarrow> duration \<Rightarrow> uint64 \<Rightarrow> Store \<Rightarrow> (store_error + unit) \<times> Store" where
  "Store_Cas ord now key value ttl expected st =
     (let i = shardFor key st;
          (r, sh, n) = shard_cas ord now key value ttl expected (st_shards st ! i) (st_cas st)
      in (r, put_shard i sh n st))"

text \<open>
  The loop of \<open>CleanupExpired\<close> over the shards.  Each shard reads the clock for itself, so the
  times are a function of the shard index.
\<close>

fun cleanupLoop :: "range_order \<Rightarrow> (nat \<Rightarrow> time) \<Rightarrow> nat list \<Rightarrow> nat \<Rightarrow> Store \<Rightarrow> nat \<times> Store" where
  "cleanupLoop ord clock [] n st = (n, st)"
| "cleanupLoop ord clock (i # is) n st =
     (let (removed, sh) = shard_cleanupExpired ord (clock i) (st_shards st ! i)
      in cleanupLoop ord clock is (n + removed) (put_shard i sh (st_cas st) st))"

definition Store_CleanupExpired :: "range_order \<Rightarrow> (nat \<Rightarrow> time) \<Rightarrow> Store \<Rightarrow> nat \<times> Store" where
  "Store_CleanupExpired ord clock st = cleanupLoop ord clock [0..<length (st_shards st)] 0 st"

definition Store_MemoryBytes :: "Store \<Rightarrow> int" where
  "Store_MemoryBytes st = foldl (\<lambda>total sh. go_int (total + memoryBytesSnapshot sh)) 0 (st_shards st)"

record Stats =
  ss_Items :: int
  ss_MemoryBytes :: int
  ss_MaxMemoryBytes :: int
  ss_Evictions :: uint64
  ss_Expirations :: uint64
  ss_ItemsPerShard :: "int list"
  ss_NumShards :: int

definition addShardStats :: "Stats \<Rightarrow> shard \<Rightarrow> Stats" where
  "addShardStats out sh =
     out\<lparr>ss_Items := ss_Items out + int (length (sh_items sh)),
         ss_MemoryBytes := go_int (ss_MemoryBytes out + sh_memoryBytes sh),
         ss_MaxMemoryBytes := go_int (ss_MaxMemoryBytes out + sh_maxMemoryBytes sh),
         ss_ItemsPerShard := ss_ItemsPerShard out @ [int (length (sh_items sh))],
         ss_Evictions := ss_Evictions out + sh_evictions sh,
         ss_Expirations := ss_Expirations out + sh_expirations sh\<rparr>"

definition Store_Stats :: "Store \<Rightarrow> Stats" where
  "Store_Stats st =
     foldl addShardStats
       \<lparr>ss_Items = 0, ss_MemoryBytes = 0, ss_MaxMemoryBytes = 0, ss_Evictions = 0,
        ss_Expirations = 0, ss_ItemsPerShard = [], ss_NumShards = int (length (st_shards st))\<rparr>
       (st_shards st)"

section \<open>Steps and reachable stores\<close>

text \<open>
  The range in which the store's integers are exact.  \<open>config.validate\<close> does not enforce it.
\<close>

definition sane_config :: "Config \<Rightarrow> bool" where
  "sane_config config \<longleftrightarrow>
     (let c = normalizeConfig config
      in cf_Shards c < 2 ^ 32 \<and> cf_MaxMemoryBytes c < 2 ^ 62
         \<and> int MaxKeyBytes + cf_MaxValueBytes c + cf_ItemOverheadBytes c < 2 ^ 63)"

inductive store_step :: "Store \<Rightarrow> Store \<Rightarrow> bool" where
  shard_call: "i < length (st_shards st) \<Longrightarrow> iterates ord
    \<Longrightarrow> (\<And>k. op_key op = Some k \<Longrightarrow> length k \<le> MaxKeyBytes \<and> shardFor k st = i)
    \<Longrightarrow> shard_step ord now op (st_shards st ! i) (st_cas st) = (r, sh, n)
    \<Longrightarrow> store_step st (put_shard i sh n st)"

text \<open>\<open>run m st st'\<close>: \<open>m\<close> method calls lead from \<open>st\<close> to \<open>st'\<close>.\<close>

inductive run :: "nat \<Rightarrow> Store \<Rightarrow> Store \<Rightarrow> bool" where
  run_none: "run 0 st st"
| run_step: "run m st st' \<Longrightarrow> store_step st' st'' \<Longrightarrow> run (Suc m) st st''"

definition reachable :: "Config \<Rightarrow> nat \<Rightarrow> Store \<Rightarrow> bool" where
  "reachable config m st \<longleftrightarrow> run m (New config) st"

definition store_tokens :: "Store \<Rightarrow> uint64 multiset" where
  "store_tokens st = sum_list (map shard_tokens (st_shards st))"

definition store_inv :: "Config \<Rightarrow> Store \<Rightarrow> bool" where
  "store_inv config st \<longleftrightarrow>
     (let c = normalizeConfig config
      in length (st_shards st) = nat (cf_Shards c)
         \<and> list_all shard_inv (st_shards st)
         \<and> list_all (\<lambda>sh. sh_maxValueBytes sh = cf_MaxValueBytes c
              \<and> sh_maxMemoryBytes sh = perShardMemory c
              \<and> sh_itemOverheadBytes sh = cf_ItemOverheadBytes c) (st_shards st)
         \<and> (\<forall>i<length (st_shards st). \<forall>k\<in>shard_keys (st_shards st ! i). shardFor k st = i))"

section \<open>Construction and routing\<close>

lemma normalizeConfig_pos:
  "0 < cf_MaxValueBytes (normalizeConfig c)" "0 < cf_MaxMemoryBytes (normalizeConfig c)"
  "0 \<le> cf_ItemOverheadBytes (normalizeConfig c)" "0 < cf_Shards (normalizeConfig c)"
  by (simp_all add: normalizeConfig_def Let_def DefaultConfig_def DefaultShards_def)

lemma perShardMemory_bounds:
  assumes "0 < cf_MaxMemoryBytes c" "0 < cf_Shards c"
  shows "1 \<le> perShardMemory c" "perShardMemory c \<le> cf_MaxMemoryBytes c"
proof -
  show "1 \<le> perShardMemory c" by (simp add: perShardMemory_def Let_def)
  have "cf_MaxMemoryBytes c div cf_Shards c \<le> cf_MaxMemoryBytes c div 1"
    using assms by (intro zdiv_mono2) auto
  with assms show "perShardMemory c \<le> cf_MaxMemoryBytes c" by (simp add: perShardMemory_def Let_def)
qed

lemma shardIndex_less:
  assumes "0 < n" "n < 2 ^ 32"
  shows "unat (shardIndex key n) < n"
proof -
  have "unat (of_nat n :: 32 word) = n" using assms(2) by (simp add: unat_of_nat)
  then show ?thesis
    using assms(1) by (simp add: shardIndex_def unat_mod)
qed

lemma newShard_inv:
  assumes "0 \<le> overhead" "0 \<le> m" "m < 2 ^ 62"
  shows "shard_inv (newShard v overhead m)" "shard_keys (newShard v overhead m) = {}"
    "shard_tokens (newShard v overhead m) = {#}"
  using assms
  by (auto simp: shard_inv_def newShard_def repr_def addrs_def dll_def abs_shard_def cache_of_def
      cache_inv_def shard_keys_def shard_tokens_def c_tokens_def)

lemma New_inv:
  assumes "sane_config config"
  shows "store_inv config (New config)"
proof -
  let ?c = "normalizeConfig config"
  have p: "0 \<le> perShardMemory ?c" "perShardMemory ?c < 2 ^ 62"
    using perShardMemory_bounds [of ?c] normalizeConfig_pos [of config] assms
    by (auto simp: sane_config_def Let_def)
  show ?thesis
    using newShard_inv [OF normalizeConfig_pos(3) [of config] p]
    by (simp add: store_inv_def New_def Let_def list_all_iff newShard_def)
qed

end
