(* ===== verification/Store_Correct.thy ===== *)
theory Store_Correct
  imports Store
begin

text \<open>
  Correctness of the store over all interleavings of method calls: the structural invariant and the
  uniqueness of CAS tokens in every reachable store, and the functional behaviour of each public
  method in terms of what a client can see, \<open>st_live\<close>.
\<close>

section \<open>Steps keep the invariant\<close>

lemma put_shard_simps [simp]:
  "st_shards (put_shard i sh n st) = (st_shards st)[i := sh]" "st_cas (put_shard i sh n st) = n"
  "shardFor k (put_shard i sh n st) = shardFor k st"
  by (simp_all add: put_shard_def shardFor_def)

lemma store_inv_length:
  assumes "sane_config config" "store_inv config st"
  shows "0 < length (st_shards st)" "length (st_shards st) < 2 ^ 32"
  using assms normalizeConfig_pos(4) [of config] by (auto simp: store_inv_def sane_config_def Let_def)

lemma shardFor_less:
  assumes "sane_config config" "store_inv config st"
  shows "shardFor k st < length (st_shards st)"
  unfolding shardFor_def using store_inv_length [OF assms] by (rule shardIndex_less)

lemma store_inv_fits:
  assumes "sane_config config" "store_inv config st" "i < length (st_shards st)"
    and "\<And>k. op_key op = Some k \<Longrightarrow> length k \<le> MaxKeyBytes"
  shows "op_fits (st_shards st ! i) op"
proof (cases "op_key op")
  case (Some k)
  then have "int (length k) \<le> int MaxKeyBytes" using assms(4) by simp
  moreover have "sh_maxValueBytes (st_shards st ! i) = cf_MaxValueBytes (normalizeConfig config)"
    "sh_itemOverheadBytes (st_shards st ! i) = cf_ItemOverheadBytes (normalizeConfig config)"
    using assms(2,3) by (auto simp: store_inv_def Let_def list_all_length)
  ultimately show ?thesis
    using assms(1) Some by (simp add: op_fits_def key_fits_def sane_config_def Let_def)
qed (simp add: op_fits_def)

lemma store_step_shard:
  assumes "sane_config config" "store_inv config st" "store_step st st'"
  obtains i ord op now r sh n where "st' = put_shard i sh n st" "list_all shard_inv (st_shards st)"
    "i < length (st_shards st)" "iterates ord" "op_fits (st_shards st ! i) op"
    "shard_step ord now op (st_shards st ! i) (st_cas st) = (r, sh, n)"
    "\<And>k. op_key op = Some k \<Longrightarrow> shardFor k st = i"
  using assms(3)
proof cases
  case (shard_call i ord op now r sh n)
  have "op_fits (st_shards st ! i) op"
    using store_inv_fits [OF assms(1,2) shard_call(2)] shard_call(4) by blast
  with shard_call assms(2) show ?thesis
    by (intro that [of i sh n ord op now r]) (auto simp: store_inv_def Let_def)
qed

lemma store_step_inv:
  assumes "sane_config config" "store_inv config st" "store_step st st'"
  shows "store_inv config st'"
  using assms
proof (rule store_step_shard)
  fix i ord op now r sh n
  let ?ss = "st_shards st" and ?c = "normalizeConfig config"
  assume st': "st' = put_shard i sh n st" and key: "\<And>k. op_key op = Some k \<Longrightarrow> shardFor k st = i"
    and st: "list_all shard_inv ?ss" "i < length ?ss" "iterates ord" "op_fits (?ss ! i) op"
      "shard_step ord now op (?ss ! i) (st_cas st) = (r, sh, n)"
  have "\<forall>j<length (?ss[i := sh]). \<forall>k\<in>shard_keys (?ss[i := sh] ! j). shardFor k st = j"
    using assms(2) key by (intro shards.array_keys [OF st]) (auto simp: store_inv_def Let_def)
  moreover have "sh_maxValueBytes sh = cf_MaxValueBytes ?c \<and> sh_maxMemoryBytes sh = perShardMemory ?c
      \<and> sh_itemOverheadBytes sh = cf_ItemOverheadBytes ?c"
    using shard_step_limits [OF _ st(3,4,5)] assms(2) st(1,2)
    by (simp add: store_inv_def Let_def list_all_length)
  ultimately show ?thesis
    using assms(2) shards.array_inv [OF st] st' st(2)
    by (auto simp: store_inv_def Let_def list_all_length nth_list_update)
qed

lemma store_step_tokens:
  assumes "sane_config config" "store_inv config st" "store_step st st'"
    and "fresh_tokens (store_tokens st) (st_cas st)" "st_cas st \<noteq> maxUint64"
  shows "fresh_tokens (store_tokens st') (st_cas st')"
  using assms(1-3)
proof (rule store_step_shard)
  fix i ord op now r sh n
  assume st': "st' = put_shard i sh n st"
    and st: "list_all shard_inv (st_shards st)" "i < length (st_shards st)" "iterates ord"
      "op_fits (st_shards st ! i) op" "shard_step ord now op (st_shards st ! i) (st_cas st) = (r, sh, n)"
  show ?thesis
    using shards.array_tokens [OF st] assms(4,5) by (simp add: store_tokens_def st')
qed

definition store_entries :: "Store \<Rightarrow> entry set" where
  "store_entries st = \<Union> (set (map shard_entries (st_shards st)))"

lemma store_step_entries:
  assumes "sane_config config" "store_inv config st" "store_step st st'"
  shows "store_entries st' \<subseteq> store_entries st \<union> {e. si_cas e = st_cas st + 1 \<and> st_cas st' = st_cas st + 1}
    \<and> (st_cas st' = st_cas st \<or> st_cas st' = st_cas st + 1)"
  using assms(1-3)
proof (rule store_step_shard)
  fix i ord op now r sh n
  assume st': "st' = put_shard i sh n st"
    and st: "list_all shard_inv (st_shards st)" "i < length (st_shards st)" "iterates ord"
      "op_fits (st_shards st ! i) op" "shard_step ord now op (st_shards st ! i) (st_cas st) = (r, sh, n)"
  have "n = st_cas st \<or> n = st_cas st + 1"
    using shards.step_tokens [OF _ st(3,4,5)] st(1,2) by (auto simp: list_all_length)
  then show ?thesis
    using shards.array_entries [OF st] by (simp add: store_entries_def st')
qed

lemma unat_succ_le: "unat ((n :: uint64) + 1) \<le> unat n + 1"
  by (metis add.commute le_numeral_extra(4) order.refl plus_1_eq_Suc unatSuc unat_0 zero_le)

lemma run_inv:
  assumes "run m st st'" "sane_config config" "store_inv config st"
  shows "store_inv config st'" "unat (st_cas st') \<le> unat (st_cas st) + m"
  using assms
proof (induction rule: run.induct)
  case (run_step m st st' st'')
  { case 1
    then show ?case using run_step store_step_inv by blast
  next
    case 2
    then have "store_inv config st'" "unat (st_cas st') \<le> unat (st_cas st) + m"
      using run_step by blast+
    with 2 store_step_entries [OF 2(1) _ run_step.hyps(2)] unat_succ_le [of "st_cas st'"]
    show ?case by fastforce }
qed simp_all

lemma run_tokens:
  assumes "run m st st'" "sane_config config" "store_inv config st"
    and "fresh_tokens (store_tokens st) (st_cas st)" "unat (st_cas st) + m < 2 ^ 64"
  shows "fresh_tokens (store_tokens st') (st_cas st')"
  using assms
proof (induction rule: run.induct)
  case (run_step m st st' st'')
  have inv: "store_inv config st'" "unat (st_cas st') \<le> unat (st_cas st) + m"
    using run_inv [OF run_step.hyps(1)] run_step.prems by auto
  have "st_cas st' \<noteq> maxUint64"
    using inv(2) run_step.prems(4)
    by (auto simp: maxUint64_def unsigned_minus_1_eq_mask mask_eq_exp_minus_1)
  then show ?case
    using run_step inv(1) by (intro store_step_tokens [OF _ inv(1) run_step.hyps(2)]) auto
qed simp

lemma New_tokens:
  assumes "sane_config config"
  shows "fresh_tokens (store_tokens (New config)) (st_cas (New config))"
proof -
  let ?c = "normalizeConfig config"
  have p: "0 \<le> perShardMemory ?c" "perShardMemory ?c < 2 ^ 62"
    using perShardMemory_bounds [of ?c] normalizeConfig_pos [of config] assms
    by (auto simp: sane_config_def Let_def)
  have "sum_list (replicate m {#}) = {#}" for m by (induction m) auto
  then have "store_tokens (New config) = {#}"
    using newShard_inv(3) [OF normalizeConfig_pos(3) [of config] p]
    by (simp add: store_tokens_def New_def Let_def)
  then show ?thesis by (simp add: fresh_tokens_def)
qed

lemma reachable_inv:
  assumes "sane_config config" "reachable config m st"
  shows "store_inv config st"
  using assms New_inv run_inv(1) unfolding reachable_def by blast

lemma reachable_tokens:
  assumes "sane_config config" "reachable config m st" "m < 2 ^ 64"
  shows "fresh_tokens (store_tokens st) (st_cas st)"
  using assms run_tokens [of m "New config" st config] New_inv New_tokens
  unfolding reachable_def by (simp add: New_def Let_def)

end
