(* ===== verification/Store_Methods.thy ===== *)
theory Store_Methods
  imports Store_Correct
begin

text \<open>
  The public methods of the store in terms of what a client can see.  \<open>st_live t k st\<close> is the entry
  that a lookup of \<open>k\<close> at time \<open>t\<close> finds.  Every method is one step of \<open>store_step\<close> (and
  \<open>CleanupExpired\<close> a run of them), changes one shard only, and acts on the visible entries as the
  cache specification says.
\<close>

section \<open>The client's view\<close>

definition st_live :: "time \<Rightarrow> key \<Rightarrow> Store \<Rightarrow> entry option" where
  "st_live now k st =
     (let sh = st_shards st ! shardFor k st
      in case map_of (sh_items sh) k of
           None \<Rightarrow> None
         | Some a \<Rightarrow> let e = payload (sh_heap sh) a in if expired e now then None else Some e)"

definition home :: "key \<Rightarrow> Store \<Rightarrow> shard" where
  "home k st = st_shards st ! shardFor k st"

lemma home_inv:
  assumes "sane_config config" "store_inv config st"
  shows "shard_inv (home k st)"
  using shardFor_less [OF assms, of k] assms(2) by (simp add: home_def store_inv_def Let_def list_all_length)

lemma home_limits:
  assumes "sane_config config" "store_inv config st"
  shows "c_maxValueBytes (abs_shard (home k st)) = cf_MaxValueBytes (normalizeConfig config)"
    "c_maxMemoryBytes (abs_shard (home k st)) = perShardMemory (normalizeConfig config)"
    "c_itemOverheadBytes (abs_shard (home k st)) = cf_ItemOverheadBytes (normalizeConfig config)"
  using shardFor_less [OF assms, of k] assms(2)
  by (simp_all add: home_def store_inv_def Let_def list_all_length abs_shard_def cache_of_def)

lemma st_live_abs:
  assumes "sane_config config" "store_inv config st"
  shows "st_live t k st = c_live t k (abs_shard (home k st))"
  using sim_lookup [of "home k st" "abs_shard (home k st)" k, symmetric] home_inv [OF assms, of k]
  by (cases "map_of (sh_items (home k st)) k") (simp_all add: st_live_def home_def c_live_def sim_iff)

section \<open>Methods are steps\<close>

text \<open>
  \<open>acts config now op k st r st'\<close>: from \<open>st\<close>, a method on key \<open>k\<close> leads to \<open>st'\<close> with result
  \<open>r\<close> in one step, doing in the shard of \<open>k\<close> what the specification of \<open>op\<close> says and nothing in
  the other shards.
\<close>

definition acts :: "Config \<Rightarrow> time \<Rightarrow> shard_op \<Rightarrow> key \<Rightarrow> Store \<Rightarrow> shard_res \<Rightarrow> Store \<Rightarrow> bool" where
  "acts config now op k st r st' \<longleftrightarrow>
     store_step st st' \<and> store_inv config st'
     \<and> spec_step now op (abs_shard (home k st)) (st_cas st) = (r, abs_shard (home k st'), st_cas st')
     \<and> (\<forall>t j. st_live t j st' = (if shardFor j st = shardFor k st
           then c_live t j (abs_shard (home k st')) else st_live t j st))
     \<and> (\<forall>t j. shardFor j st = shardFor k st \<longrightarrow> st_live t j st = c_live t j (abs_shard (home k st)))"

lemma method_acts:
  assumes "sane_config config" "store_inv config st" "iterates ord" "length k \<le> MaxKeyBytes"
    and "op_key op = Some k" "shard_step ord now op (home k st) (st_cas st) = (r, sh, n)"
  shows "acts config now op k st r (put_shard (shardFor k st) sh n st)" (is "acts _ _ _ _ _ _ ?st'")
proof -
  have i: "shardFor k st < length (st_shards st)" by (rule shardFor_less [OF assms(1,2)])
  then have step: "store_step st ?st'"
    using assms by (intro shard_call) (auto simp: home_def)
  have inv: "store_inv config ?st'" by (rule store_step_inv [OF assms(1,2) step])
  have h: "home k ?st' = sh" using i by (simp add: home_def)
  have "op_fits (home k st) op"
    unfolding home_def using assms by (intro store_inv_fits [OF assms(1,2) i]) auto
  note spec = shard_step_refines(2) [OF home_inv [OF assms(1,2)] assms(3) this assms(6)]
  have same: "home j s = home k s" if "shardFor j st = shardFor k st" "s \<in> {st, ?st'}" for j s
    using that by (auto simp: home_def)
  have "st_live t j ?st' = (if shardFor j st = shardFor k st
      then c_live t j (abs_shard (home k ?st')) else st_live t j st)" for t j
    using same [of j ?st'] st_live_abs [OF assms(1) inv, of t j] by (auto simp: st_live_def)
  moreover have "st_live t j st = c_live t j (abs_shard (home k st))"
    if "shardFor j st = shardFor k st" for t j
    using same [of j st] that st_live_abs [OF assms(1,2), of t j] by simp
  ultimately show ?thesis
    unfolding acts_def using step inv spec h by simp
qed

lemma iterates_id: "iterates id"
  by (simp add: iterates_def)

lemma acts_Set:
  assumes "sane_config config" "store_inv config st" "iterates ord" "length k \<le> MaxKeyBytes"
    and "Store_Set ord now k v ttl st = (r, st')"
  shows "acts config now (DoSet k v ttl) k st (Stored r) st'"
  using method_acts [OF assms(1-4), of "DoSet k v ttl" now "Stored r"] assms(5)
  by (auto simp: Store_Set_def Let_def home_def shard_step_def split: prod.splits)

lemma acts_Cas:
  assumes "sane_config config" "store_inv config st" "iterates ord" "length k \<le> MaxKeyBytes"
    and "Store_Cas ord now k v ttl x st = (r, st')"
  shows "acts config now (DoCas k v ttl x) k st (Stored r) st'"
  using method_acts [OF assms(1-4), of "DoCas k v ttl x" now "Stored r"] assms(5)
  by (auto simp: Store_Cas_def Let_def home_def shard_step_def split: prod.splits)

lemma acts_Incr:
  assumes "sane_config config" "store_inv config st" "iterates ord" "length k \<le> MaxKeyBytes"
    and "Store_Incr ord now k d st = (r, st')"
  shows "acts config now (DoIncr k d) k st (Counted r) st'"
  using method_acts [OF assms(1-4), of "DoIncr k d" now "Counted r"] assms(5)
  by (auto simp: Store_Incr_def Let_def home_def shard_step_def split: prod.splits)

lemma acts_Get:
  assumes "sane_config config" "store_inv config st" "length k \<le> MaxKeyBytes"
    and "Store_Get now k st = (r, st')"
  shows "acts config now (DoGet k) k st (Found r) st'"
  using method_acts [OF assms(1,2) iterates_id assms(3), of "DoGet k" now "Found r"] assms(4)
  by (auto simp: Store_Get_def Let_def home_def shard_step_def split: prod.splits)

lemma acts_Delete:
  assumes "sane_config config" "store_inv config st" "length k \<le> MaxKeyBytes"
    and "Store_Delete now k st = (r, st')"
  shows "acts config now (DoDelete k) k st (Deleted r) st'"
  using method_acts [OF assms(1,2) iterates_id assms(3), of "DoDelete k" now "Deleted r"] assms(4)
  by (auto simp: Store_Delete_def Let_def home_def shard_step_def split: prod.splits)

text \<open>A method touches its own key and, in its own shard, what the specification touches.\<close>

lemma acts_own:
  assumes "acts config now op k st r st'"
  shows "st_live t k st = c_live t k (abs_shard (home k st))"
    "st_live t k st' = c_live t k (abs_shard (home k st'))"
  using assms by (auto simp: acts_def)

lemma acts_set_spec: "acts config now (DoSet k v ttl) k st (Stored r) st' \<Longrightarrow>
    spec_set now k v ttl (abs_shard (home k st)) (st_cas st) = (r, abs_shard (home k st'), st_cas st')"
  by (auto simp: acts_def spec_step_def map_prod_def split: prod.splits)

lemma acts_cas_spec: "acts config now (DoCas k v ttl x) k st (Stored r) st' \<Longrightarrow>
    spec_cas now k v ttl x (abs_shard (home k st)) (st_cas st) = (r, abs_shard (home k st'), st_cas st')"
  by (auto simp: acts_def spec_step_def map_prod_def split: prod.splits)

lemma acts_incr_spec: "acts config now (DoIncr k d) k st (Counted r) st' \<Longrightarrow>
    spec_incr now k d (abs_shard (home k st)) (st_cas st) = (r, abs_shard (home k st'), st_cas st')"
  by (auto simp: acts_def spec_step_def map_prod_def split: prod.splits)

lemma acts_get_spec: "acts config now (DoGet k) k st (Found r) st' \<Longrightarrow>
    spec_get now k (abs_shard (home k st)) = (r, abs_shard (home k st')) \<and> st_cas st' = st_cas st"
  by (auto simp: acts_def spec_step_def split: prod.splits)

lemma acts_delete_spec: "acts config now (DoDelete k) k st (Deleted r) st' \<Longrightarrow>
    spec_delete now k (abs_shard (home k st)) = (r, abs_shard (home k st')) \<and> st_cas st' = st_cas st"
  by (auto simp: acts_def spec_step_def split: prod.splits)

lemma acts_frame:
  assumes "acts config now op k st r st'"
    and "c_live t j (abs_shard (home k st')) \<in> {None, c_live t j (abs_shard (home k st))}"
  shows "st_live t j st' \<in> {None, st_live t j st}"
  using assms by (auto simp: acts_def)

lemma acts_same:
  assumes "acts config now op k st r st'"
    and "c_live t j (abs_shard (home k st')) = c_live t j (abs_shard (home k st))"
  shows "st_live t j st' = st_live t j st"
  using assms by (auto simp: acts_def)

lemma home_cache_inv:
  assumes "sane_config config" "store_inv config st"
  shows "cache_inv (abs_shard (home k st))"
  using home_inv [OF assms, of k] by (simp add: shard_inv_def)

lemma acts_get_view:
  assumes "sane_config config" "store_inv config st" "acts config now (DoGet k) k st (Found r) st'"
  shows "r = map_option (\<lambda>e. \<lparr>it_Value = si_value e, it_CAS = si_cas e\<rparr>) (st_live now k st)"
    and "now \<le> t \<Longrightarrow> st_live t j st' = st_live t j st"
proof -
  note s = acts_get_spec [OF assms(3), THEN conjunct1]
  show "r = map_option (\<lambda>e. \<lparr>it_Value = si_value e, it_CAS = si_cas e\<rparr>) (st_live now k st)"
    using spec_get_result [of now k "abs_shard (home k st)"] s acts_own(1) [OF assms(3)] by simp
  assume "now \<le> t"
  then have "c_live t j (abs_shard (home k st')) = c_live t j (abs_shard (home k st))"
    using spec_get_live [OF home_cache_inv [OF assms(1,2), of k], of now t j k] s by simp
  then show "st_live t j st' = st_live t j st" by (rule acts_same [OF assms(3)])
qed

end
