(* ===== verification/Store_Properties.thy ===== *)
theory Store_Properties
  imports Store_Methods
begin

text \<open>
  The properties of the store: invariants of every reachable store, and what each public method
  promises its caller.
\<close>

section \<open>Sums over the shards\<close>

lemma foldl_go_int:
  assumes "\<forall>x\<in>set xs. 0 \<le> f x" "0 \<le> a" "a + sum_list (map f xs) < 2 ^ 63"
  shows "foldl (\<lambda>t x. go_int (t + f x)) a xs = a + sum_list (map f xs)"
  using assms
proof (induction xs arbitrary: a)
  case (Cons x xs)
  have "0 \<le> sum_list (map f xs)" using Cons.prems by (intro sum_list_nonneg) auto
  with Cons.prems have "go_int (a + f x) = a + f x" by (intro go_int_id) (auto simp: int64_range_def)
  with Cons show ?case by (simp add: add.assoc)
qed simp

lemma shards_budget:
  assumes "sane_config config" "store_inv config st"
  shows "sum_list (map sh_maxMemoryBytes (st_shards st))
      = cf_Shards (normalizeConfig config) * perShardMemory (normalizeConfig config)"
proof -
  let ?c = "normalizeConfig config"
  have "map sh_maxMemoryBytes (st_shards st) = replicate (nat (cf_Shards ?c)) (perShardMemory ?c)"
    using assms(2) by (intro nth_equalityI) (auto simp: store_inv_def Let_def list_all_length)
  then show ?thesis using normalizeConfig_pos(4) [of config] by (simp add: sum_list_replicate)
qed

lemma total_budget:
  assumes "sane_config config"
  shows "cf_Shards (normalizeConfig config) * perShardMemory (normalizeConfig config) < 2 ^ 63"
    and "cf_Shards (normalizeConfig config) \<le> cf_MaxMemoryBytes (normalizeConfig config) \<Longrightarrow>
      cf_Shards (normalizeConfig config) * perShardMemory (normalizeConfig config)
        \<le> cf_MaxMemoryBytes (normalizeConfig config)"
proof -
  let ?c = "normalizeConfig config"
  let ?q = "cf_MaxMemoryBytes ?c div cf_Shards ?c"
  have q: "cf_Shards ?c * ?q \<le> cf_MaxMemoryBytes ?c"
    using normalizeConfig_pos(4) [of config] by (simp flip: minus_mod_eq_mult_div)
  show "cf_Shards ?c * perShardMemory ?c < 2 ^ 63"
    using q assms by (auto simp: perShardMemory_def Let_def sane_config_def)
  assume le: "cf_Shards ?c \<le> cf_MaxMemoryBytes ?c"
  then have "0 < ?q" using normalizeConfig_pos(4) [of config] by (simp add: pos_imp_zdiv_pos_iff)
  with q show "cf_Shards ?c * perShardMemory ?c \<le> cf_MaxMemoryBytes ?c"
    by (simp add: perShardMemory_def Let_def)
qed

lemma store_memory:
  assumes "sane_config config" "store_inv config st"
  shows "Store_MemoryBytes st = sum_list (map sh_memoryBytes (st_shards st))"
    and "0 \<le> Store_MemoryBytes st"
    and "Store_MemoryBytes st \<le> cf_Shards (normalizeConfig config) * perShardMemory (normalizeConfig config)"
proof -
  have li: "list_all shard_inv (st_shards st)" using assms(2) by (simp add: store_inv_def Let_def)
  note b = shards.array_memory [OF li] shards_budget [OF assms] total_budget(1) [OF assms(1)]
  have "foldl (\<lambda>t x. go_int (t + sh_memoryBytes x)) 0 (st_shards st)
      = 0 + sum_list (map sh_memoryBytes (st_shards st))"
    using li b by (intro foldl_go_int) (auto simp: list_all_iff dest!: shards.inv_memory)
  then show m: "Store_MemoryBytes st = sum_list (map sh_memoryBytes (st_shards st))"
    by (simp add: Store_MemoryBytes_def memoryBytesSnapshot_def)
  show "0 \<le> Store_MemoryBytes st" "Store_MemoryBytes st
      \<le> cf_Shards (normalizeConfig config) * perShardMemory (normalizeConfig config)"
    using b by (auto simp: m)
qed

lemma reachable_call:
  assumes "reachable config m st" "acts config now op k st r st'"
  shows "reachable config (Suc m) st'"
  using assms run_step unfolding reachable_def acts_def by blast

abbreviation demo :: Config where
  "demo \<equiv> \<lparr>cf_MaxValueBytes = 10, cf_MaxMemoryBytes = 40, cf_ItemOverheadBytes = 3, cf_Shards = 2\<rparr>"

lemma demo_sane: "sane_config demo"
  by code_simp

lemma demo_New: "reachable demo 0 (New demo)"
  by (simp add: reachable_def run_none)

lemma iterates_rev: "iterates rev"
  by (simp add: iterates_def)

lemma demo_fits: "length ''k'' \<le> MaxKeyBytes"
  by code_simp

text \<open>A store in which \<open>k\<close> has been set once, for ten ticks from time 5.\<close>

abbreviation demo1 :: Store where
  "demo1 \<equiv> snd (Store_Set rev 5 ''k'' ''7'' 10 (New demo))"

lemma demo1_set: "Store_Set rev 5 ''k'' ''7'' 10 (New demo) = (Inr (), demo1)"
proof -
  have "fst (Store_Set rev 5 ''k'' ''7'' 10 (New demo)) = Inr ()" by code_simp
  then show ?thesis by (metis prod.collapse)
qed

lemma demo1_reachable: "reachable demo 1 demo1"
  using reachable_call [OF demo_New acts_Set [OF demo_sane New_inv [OF demo_sane] iterates_rev demo_fits demo1_set]]
  by simp


section \<open>Every reachable store\<close>

text \<open>
  C12 (invariant).  In every store that any interleaving of method calls can produce from \<open>New\<close>,
  each shard's map, intrusive list and counters agree with each other, each entry is within the
  limits, each shard has the limits that \<open>New\<close> gave it, and every key is in the shard it hashes to.
\<close>

theorem reachable_store_inv:
  assumes "sane_config config" "reachable config m st"
  shows "store_inv config st"
  by (rule reachable_inv [OF assms])

theorem reachable_store_inv_witness:
  "sane_config demo \<and> reachable demo 1 demo1 \<and> store_inv demo demo1"
  using reachable_store_inv [OF demo_sane demo1_reachable] demo_sane demo1_reachable by simp

text \<open>
  C4 (safety).  The memory that a reachable store reports is the exact sum of the sizes of its
  entries, without wrap-around, and never exceeds the shards' budgets; these add up to at most
  \<open>MaxMemoryBytes\<close> when there are no more shards than bytes.
\<close>

theorem store_memory_bound:
  assumes "sane_config config" "reachable config m st"
  shows "Store_MemoryBytes st = (\<Sum>sh\<leftarrow>st_shards st. \<Sum>e\<leftarrow>c_entries (abs_shard sh). si_size e)
    \<and> 0 \<le> Store_MemoryBytes st
    \<and> Store_MemoryBytes st \<le> cf_Shards (normalizeConfig config) * perShardMemory (normalizeConfig config)
    \<and> (cf_Shards (normalizeConfig config) \<le> cf_MaxMemoryBytes (normalizeConfig config)
       \<longrightarrow> Store_MemoryBytes st \<le> cf_MaxMemoryBytes (normalizeConfig config))"
proof -
  note inv = reachable_inv [OF assms]
  have "list_all shard_inv (st_shards st)" using inv by (simp add: store_inv_def Let_def)
  then have "map sh_memoryBytes (st_shards st)
      = map (\<lambda>sh. \<Sum>e\<leftarrow>c_entries (abs_shard sh). si_size e) (st_shards st)"
    by (auto simp: list_all_iff shard_memory_abs c_mem_def)
  with store_memory [OF assms(1) inv] total_budget(2) [OF assms(1)] show ?thesis by auto
qed

theorem store_memory_bound_witness:
  "Store_MemoryBytes demo1 = 5 \<and> Store_MemoryBytes demo1 \<le> cf_MaxMemoryBytes (normalizeConfig demo)"
proof -
  have "Store_MemoryBytes demo1 = 5" by code_simp
  moreover have "cf_Shards (normalizeConfig demo) \<le> cf_MaxMemoryBytes (normalizeConfig demo)" by code_simp
  ultimately show ?thesis using store_memory_bound [OF demo_sane demo1_reachable] by blast
qed

text \<open>
  C18 (invariant).  As long as fewer than \<open>2^64\<close> method calls have been made, no two stored
  entries, in whichever shards, carry the same CAS token, and no token is ahead of the counter.
\<close>

theorem tokens_unique:
  assumes "sane_config config" "reachable config m st" "m < 2 ^ 64"
  shows "(\<forall>x. count (store_tokens st) x \<le> 1) \<and> (\<forall>x\<in>#store_tokens st. x \<le> st_cas st)"
  using reachable_tokens [OF assms] by (simp add: fresh_tokens_def)

theorem tokens_unique_witness:
  "count (store_tokens demo1) 1 \<le> 1 \<and> st_cas demo1 = 1"
proof -
  have "st_cas demo1 = 1" by code_simp
  then show ?thesis using tokens_unique [OF demo_sane demo1_reachable] by simp
qed

section \<open>Set and Get\<close>

text \<open>
  C19 (functional).  \<open>Get\<close> returns the live entry of its key, and neither it nor the recency update
  and the lazy expiry inside it change anything a client can see.
\<close>

theorem Get_live:
  assumes "sane_config config" "reachable config m st" "length k \<le> MaxKeyBytes"
    and "Store_Get now k st = (r, st')" "now \<le> t"
  shows "r = map_option (\<lambda>e. \<lparr>it_Value = si_value e, it_CAS = si_cas e\<rparr>) (st_live now k st)
    \<and> st_live t j st' = st_live t j st \<and> st_cas st' = st_cas st"
proof -
  note inv = reachable_inv [OF assms(1,2)]
  note a = acts_Get [OF assms(1) inv assms(3,4)]
  show ?thesis
    using acts_get_view [OF assms(1) inv a] acts_get_spec [OF a] assms(5) by blast
qed

theorem Get_live_witness:
  "fst (Store_Get 6 ''k'' demo1) = Some \<lparr>it_Value = ''7'', it_CAS = 1\<rparr>
   \<and> st_live 6 ''k'' (snd (Store_Get 6 ''k'' demo1)) = st_live 6 ''k'' demo1"
proof -
  have "fst (Store_Get 6 ''k'' demo1) = Some \<lparr>it_Value = ''7'', it_CAS = 1\<rparr>" by code_simp
  moreover have "st_live 6 ''k'' (snd (Store_Get 6 ''k'' demo1)) = st_live 6 ''k'' demo1"
    by (rule Get_live [OF demo_sane demo1_reachable demo_fits prod.collapse [symmetric],
          THEN conjunct2, THEN conjunct1]) simp
  ultimately show ?thesis ..
qed

lemma Get_view:
  assumes "sane_config config" "store_inv config st" "length k \<le> MaxKeyBytes"
  shows "fst (Store_Get t k st) = map_option (\<lambda>e. \<lparr>it_Value = si_value e, it_CAS = si_cas e\<rparr>) (st_live t k st)"
  using acts_get_view(1) [OF assms(1,2) acts_Get [OF assms prod.collapse [symmetric]]] .

lemma Set_view:
  assumes "sane_config config" "store_inv config st" "iterates ord" "length k \<le> MaxKeyBytes"
    and "Store_Set ord now k v ttl st = (Inr (), st')" "now \<le> t"
  shows "store_inv config st'" "st_cas st' = st_cas st + 1"
    "st_live t k st' = (if 0 < ttl \<and> now + ttl \<noteq> 0 \<and> now + ttl \<le> t then None
       else Some \<lparr>si_key = k, si_value = v, si_expiresAt = expiresAt now ttl,
                  si_size = c_size (abs_shard (home k st)) k v, si_cas = st_cas st + 1\<rparr>)"
proof -
  note a = acts_Set [OF assms(1-5)]
  note s = spec_set_stored [OF home_cache_inv [OF assms(1,2)] acts_set_spec [OF a] assms(6)]
  show "store_inv config st'" using a by (simp add: acts_def)
  show "st_cas st' = st_cas st + 1" by (rule s(2))
  show "st_live t k st' = (if 0 < ttl \<and> now + ttl \<noteq> 0 \<and> now + ttl \<le> t then None
       else Some \<lparr>si_key = k, si_value = v, si_expiresAt = expiresAt now ttl,
                  si_size = c_size (abs_shard (home k st)) k v, si_cas = st_cas st + 1\<rparr>)"
    using s(1) acts_own(2) [OF a] by simp
qed

text \<open>
  C15 (round trip).  After a successful \<open>Set\<close>, \<open>Get\<close> returns exactly the value and the token that
  was just drawn, at every later time before the deadline, and nothing from the deadline on.
\<close>

theorem Set_Get:
  assumes "sane_config config" "reachable config m st" "iterates ord" "length k \<le> MaxKeyBytes"
    and "Store_Set ord now k v ttl st = (Inr (), st')" "0 \<le> now" "now \<le> t"
  shows "fst (Store_Get t k st') =
      (if 0 < ttl \<and> now + ttl \<le> t then None else Some \<lparr>it_Value = v, it_CAS = st_cas st'\<rparr>)
    \<and> st_cas st' = st_cas st + 1"
  using Set_view [OF assms(1) reachable_inv [OF assms(1,2)] assms(3-5,7)] Get_view [OF assms(1) _ assms(4)] assms(6)
  by auto

theorem Set_Get_witness:
  "fst (Store_Get 14 ''k'' demo1) = Some \<lparr>it_Value = ''7'', it_CAS = st_cas demo1\<rparr>
   \<and> fst (Store_Get 15 ''k'' demo1) = None"
  using Set_Get [OF demo_sane demo_New iterates_rev demo_fits demo1_set, of 14]
    Set_Get [OF demo_sane demo_New iterates_rev demo_fits demo1_set, of 15] by simp

lemma Set_succeeds:
  assumes "sane_config config" "store_inv config st" "iterates ord" "length k \<le> MaxKeyBytes"
    and "int (length v) \<le> cf_MaxValueBytes (normalizeConfig config)"
    and "int (length k) + int (length v) + cf_ItemOverheadBytes (normalizeConfig config) \<le> perShardMemory (normalizeConfig config)"
  shows "\<exists>st'. Store_Set ord now k v ttl st = (Inr (), st')"
proof -
  obtain r st' where g: "Store_Set ord now k v ttl st = (r, st')" by fastforce
  then show ?thesis
    using acts_set_spec [OF acts_Set [OF assms(1-4) g]] home_limits [OF assms(1,2), of k] assms(5,6)
      spec_set_ok_iff [of now k v ttl "abs_shard (home k st)" "st_cas st"] by (simp add: c_size_def)
qed

text \<open>
  C16 (functional).  \<open>Set\<close> succeeds exactly when the value is within \<open>max-value-bytes\<close> and the
  entry within its shard's budget, whatever else is stored: making room never fails.
\<close>

theorem Set_ok_iff:
  assumes "sane_config config" "reachable config m st" "iterates ord" "length k \<le> MaxKeyBytes"
  shows "fst (Store_Set ord now k v ttl st) =
     (if cf_MaxValueBytes (normalizeConfig config) < int (length v) then Inl ErrValueTooLarge
      else if perShardMemory (normalizeConfig config)
          < int (length k) + int (length v) + cf_ItemOverheadBytes (normalizeConfig config)
        then Inl ErrMemoryLimitExceeded
      else Inr ())"
proof -
  note inv = reachable_inv [OF assms(1,2)]
  obtain r st' where g: "Store_Set ord now k v ttl st = (r, st')" by fastforce
  note a = acts_Set [OF assms(1) inv assms(3,4) g]
  note s = acts_set_spec [OF a]
  show ?thesis
    unfolding g using s spec_set_ok_iff [of now k v ttl "abs_shard (home k st)" "st_cas st"]
      spec_set_error(3) [of now k v ttl "abs_shard (home k st)" "st_cas st" _ _ _ now]
      home_limits [OF assms(1) inv, of k]
    by (cases r) (auto simp: c_size_def split: if_splits)
qed

theorem Set_ok_iff_witness:
  "fst (Store_Set rev 6 ''k'' ''12345678901'' 0 demo1) = Inl ErrValueTooLarge
   \<and> fst (Store_Set rev 6 ''k'' ''1234567890'' 0 demo1) = Inr ()"
proof -
  have "cf_MaxValueBytes (normalizeConfig demo) = 10" "perShardMemory (normalizeConfig demo) = 20"
    "cf_ItemOverheadBytes (normalizeConfig demo) = 3" by code_simp+
  then show ?thesis
    using Set_ok_iff [OF demo_sane demo1_reachable iterates_rev demo_fits, of 6 "''12345678901''" 0]
      Set_ok_iff [OF demo_sane demo1_reachable iterates_rev demo_fits, of 6 "''1234567890''" 0] by simp
qed

text \<open>
  C17 (safety).  A successful \<open>Set\<close> can only evict other keys, never change them; keys of other
  shards are not even evicted, and no key is when the shard has room for the new entry.
\<close>

theorem Set_frame:
  assumes "sane_config config" "reachable config m st" "iterates ord" "length k \<le> MaxKeyBytes"
    and "Store_Set ord now k v ttl st = (Inr (), st')" "now \<le> t" "j \<noteq> k"
  shows "st_live t j st' \<in> {None, st_live t j st}
    \<and> (shardFor j st \<noteq> shardFor k st \<or> c_fits k (c_size (abs_shard (home k st)) k v) (abs_shard (home k st))
       \<longrightarrow> st_live t j st' = st_live t j st)"
proof -
  note inv = reachable_inv [OF assms(1,2)]
  note a = acts_Set [OF assms(1) inv assms(3,4,5)]
  note s = acts_set_spec [OF a]
  note o = spec_set_others [OF home_cache_inv [OF assms(1) inv] s assms(6,7)]
  have "st_live t j st' = st_live t j st" if "shardFor j st \<noteq> shardFor k st"
    using a that by (simp add: acts_def)
  with o acts_frame [OF a o(1)] acts_same [OF a] show ?thesis by blast
qed

theorem Set_frame_witness:
  "st_live 6 ''k'' (snd (Store_Set rev 6 ''j'' ''1'' 0 demo1)) \<in> {None, st_live 6 ''k'' demo1}"
proof -
  have "fst (Store_Set rev 6 ''j'' ''1'' 0 demo1) = Inr ()" by code_simp
  then have s: "Store_Set rev 6 ''j'' ''1'' 0 demo1 = (Inr (), snd (Store_Set rev 6 ''j'' ''1'' 0 demo1))"
    by (metis prod.collapse)
  have "length ''j'' \<le> MaxKeyBytes" by code_simp
  then show ?thesis
    by (rule Set_frame [OF demo_sane demo1_reachable iterates_rev _ s, THEN conjunct1]) simp_all
qed

end
