(* ===== verification/Store_Writes.thy ===== *)
theory Store_Writes
  imports Store_Properties
begin

text \<open>
  The conditional writes \<open>Cas\<close> and \<open>Incr\<close>, \<open>Delete\<close>, failed writes, the expiry sweep and the
  statistics of the store.
\<close>

section \<open>Tokens identify entries\<close>

lemma store_tokens_concat:
  "store_tokens st = mset (map si_cas (concat (map (\<lambda>sh. c_entries (abs_shard sh)) (st_shards st))))"
proof -
  have "sum_list (map shard_tokens ss) = mset (map si_cas (concat (map (\<lambda>sh. c_entries (abs_shard sh)) ss)))" for ss
    by (induction ss) (auto simp: shard_tokens_def c_tokens_def)
  then show ?thesis by (simp add: store_tokens_def)
qed

lemma distinct_count_le_1: "\<forall>a. count (mset xs) a \<le> 1 \<Longrightarrow> distinct xs"
proof (induction xs)
  case (Cons x xs)
  have "count (mset xs) a \<le> 1" for a by (rule order_trans [OF _ Cons.prems [rule_format, of a]]) simp
  moreover have "count (mset xs) x = 0" using Cons.prems [rule_format, of x] by simp
  ultimately show ?case using Cons.IH by (simp add: count_mset_0_iff)
qed simp

lemma store_entries_token_inj:
  assumes "fresh_tokens (store_tokens st) n" "e \<in> store_entries st" "e' \<in> store_entries st"
    and "si_cas e = si_cas e'"
  shows "e = e'"
proof -
  let ?es = "concat (map (\<lambda>sh. c_entries (abs_shard sh)) (st_shards st))"
  have "distinct (map si_cas ?es)"
    using assms(1) unfolding store_tokens_concat fresh_tokens_def by (blast intro: distinct_count_le_1)
  moreover have "set ?es = store_entries st" by (auto simp: store_entries_def shard_entries_def)
  ultimately show ?thesis using assms(2-4) by (metis distinct_map inj_onD)
qed

lemma run_entries:
  assumes "run m st st'" "sane_config config" "store_inv config st" "unat (st_cas st) + m < 2 ^ 64"
  shows "st_cas st \<le> st_cas st' \<and> (\<forall>e\<in>store_entries st'. si_cas e \<le> st_cas st \<longrightarrow> e \<in> store_entries st)"
  using assms
proof (induction rule: run.induct)
  case (run_step m st st' st'')
  have inv: "store_inv config st'" "unat (st_cas st') \<le> unat (st_cas st) + m"
    using run_inv [OF run_step.hyps(1)] run_step.prems by auto
  have "st_cas st' \<noteq> maxUint64"
    using inv(2) run_step.prems(3)
    by (auto simp: maxUint64_def unsigned_minus_1_eq_mask mask_eq_exp_minus_1)
  then have "st_cas st' < st_cas st' + 1" by (rule word_succ_gt)
  moreover have "st_cas st \<le> st_cas st'" "\<forall>e\<in>store_entries st'. si_cas e \<le> st_cas st \<longrightarrow> e \<in> store_entries st"
    using run_step by auto
  ultimately show ?case
    using store_step_entries [OF run_step.prems(1) inv(1) run_step.hyps(2)] by force
qed simp

lemma st_live_entry:
  assumes "sane_config config" "store_inv config st" "st_live t k st = Some e"
  shows "e \<in> store_entries st" "si_key e = k"
proof -
  have "c_lookup k (c_entries (abs_shard (home k st))) = Some e"
    using assms(3) unfolding st_live_abs [OF assms(1,2)] by (auto simp: c_live_def split: option.splits if_splits)
  then have "e \<in> shard_entries (home k st)" "si_key e = k"
    by (auto simp: shard_entries_def dest: c_lookup_key)
  moreover have "home k st \<in> set (st_shards st)"
    unfolding home_def using shardFor_less [OF assms(1,2)] by simp
  ultimately show "e \<in> store_entries st" "si_key e = k" by (auto simp: store_entries_def)
qed

lemma store_entries_tokens: "e \<in> store_entries st \<Longrightarrow> si_cas e \<in># store_tokens st"
  by (auto simp: store_tokens_concat store_entries_def shard_entries_def)

section \<open>Compare and swap\<close>

text \<open>
  C20 (functional).  \<open>Cas\<close> checks, in this order, the value's size, that the key is live, that the
  token is the entry's, and the entry's size.  When it succeeds, clients see the same store as
  after \<open>Set\<close>.
\<close>

theorem Cas_result:
  assumes "sane_config config" "reachable config m st" "iterates ord" "length k \<le> MaxKeyBytes"
    and "now \<le> t"
  shows "fst (Store_Cas ord now k v ttl x st) =
     (if cf_MaxValueBytes (normalizeConfig config) < int (length v) then Inl ErrValueTooLarge
      else case st_live now k st of
        None \<Rightarrow> Inl ErrNotFound
      | Some e \<Rightarrow> if si_cas e \<noteq> x then Inl ErrCasMismatch
          else if perShardMemory (normalizeConfig config)
              < int (length k) + int (length v) + cf_ItemOverheadBytes (normalizeConfig config)
            then Inl ErrMemoryLimitExceeded
          else Inr ())
    \<and> (fst (Store_Cas ord now k v ttl x st) = Inr () \<longrightarrow>
       st_live t j (snd (Store_Cas ord now k v ttl x st)) = st_live t j (snd (Store_Set ord now k v ttl st)))"
proof -
  note inv = reachable_inv [OF assms(1,2)]
  obtain r st' where c: "Store_Cas ord now k v ttl x st = (r, st')" by fastforce
  obtain q st'' where s: "Store_Set ord now k v ttl st = (q, st'')" by fastforce
  note a = acts_Cas [OF assms(1) inv assms(3,4) c]
  note b = acts_Set [OF assms(1) inv assms(3,4) s]
  have "st_live t j st' = st_live t j st''" if "r = Inr ()"
  proof -
    have "abs_shard (home k st') = abs_shard (home k st'')"
      using spec_cas_is_set [of now k v ttl x] acts_cas_spec [OF a] acts_set_spec [OF b] that by simp
    then show ?thesis using a b by (simp add: acts_def)
  qed
  moreover have "r = fst (spec_cas now k v ttl x (abs_shard (home k st)) (st_cas st))"
    using acts_cas_spec [OF a] by simp
  ultimately show ?thesis
    unfolding c s fst_conv snd_conv spec_cas_result
    using home_limits [OF assms(1) inv, of k] acts_own(1) [OF a, of now] by (simp add: c_size_def)
qed

theorem Cas_result_witness:
  "fst (Store_Cas rev 6 ''k'' ''new'' 0 1 demo1) = Inr ()
   \<and> fst (Store_Cas rev 6 ''k'' ''new'' 0 2 demo1) = Inl ErrCasMismatch
   \<and> st_live 6 ''k'' (snd (Store_Cas rev 6 ''k'' ''new'' 0 1 demo1))
     = st_live 6 ''k'' (snd (Store_Set rev 6 ''k'' ''new'' 0 demo1))"
proof -
  have "fst (Store_Cas rev 6 ''k'' ''new'' 0 1 demo1) = Inr ()"
    "fst (Store_Cas rev 6 ''k'' ''new'' 0 2 demo1) = Inl ErrCasMismatch" by code_simp+
  moreover have "st_live 6 ''k'' (snd (Store_Cas rev 6 ''k'' ''new'' 0 1 demo1))
      = st_live 6 ''k'' (snd (Store_Set rev 6 ''k'' ''new'' 0 demo1))"
    by (rule Cas_result [OF demo_sane demo1_reachable iterates_rev demo_fits, THEN conjunct2, rule_format])
      (simp, fact)
  ultimately show ?thesis by blast
qed

text \<open>
  C3 (safety).  Optimistic concurrency is sound: if a client reads a key, any number of other calls
  happen in between (fewer than \<open>2^64\<close> in all), and its \<open>Cas\<close> with the token it read succeeds,
  then at that moment the store still holds the very entry the client read.  There is no ABA case,
  not even when the key was deleted, expired, evicted or rewritten with the same value in between.
\<close>

theorem Cas_no_aba:
  assumes "sane_config config" "reachable config m st" "length k \<le> MaxKeyBytes"
    and "Store_Get t0 k st = (Some item, st1)" "run p st1 st2" "m + Suc p < 2 ^ 64" "iterates ord"
    and "Store_Cas ord now k v ttl (it_CAS item) st2 = (Inr (), st3)"
  shows "\<exists>e. st_live t0 k st = Some e \<and> st_live now k st2 = Some e \<and> si_value e = it_Value item"
proof -
  note inv = reachable_inv [OF assms(1,2)]
  note a = acts_Get [OF assms(1) inv assms(3,4)]
  have inv1: "store_inv config st1" and step1: "store_step st st1" using a by (simp_all add: acts_def)
  have r1: "reachable config (Suc m) st1" by (rule reachable_call [OF assms(2) a])
  have f1: "fresh_tokens (store_tokens st1) (st_cas st1)"
    using assms(6) by (intro reachable_tokens [OF assms(1) r1]) simp
  have "unat (st_cas st1) \<le> Suc m"
    using run_inv(2) [OF _ assms(1) New_inv [OF assms(1)]] r1 by (force simp: reachable_def New_def Let_def)
  with assms(6) have small: "unat (st_cas st1) + p < 2 ^ 64" by simp
  have inv2: "store_inv config st2" by (rule run_inv(1) [OF assms(5,1) inv1])
  note b = acts_Cas [OF assms(1) inv2 assms(7,3,8)]
  obtain e where e: "st_live t0 k st = Some e" "item = \<lparr>it_Value = si_value e, it_CAS = si_cas e\<rparr>"
    using acts_get_view(1) [OF assms(1) inv a] by (cases "st_live t0 k st") auto
  have "st_live t0 k st1 = Some e"
    using acts_get_view(2) [OF assms(1) inv a order_refl] e(1) by simp
  then have e1: "e \<in> store_entries st1" by (rule st_live_entry [OF assms(1) inv1])
  obtain f where f: "st_live now k st2 = Some f" "si_cas f = si_cas e"
    using spec_cas_result [of now k v ttl "it_CAS item" "abs_shard (home k st2)" "st_cas st2"]
      acts_cas_spec [OF b] acts_own(1) [OF b, of now] e(2) by (auto split: if_splits option.splits)
  have "si_cas f \<le> st_cas st1"
    using store_entries_tokens [OF e1] f1 f(2) by (simp add: fresh_tokens_def)
  then have "f \<in> store_entries st1"
    using run_entries [OF assms(5,1) inv1 small] st_live_entry(1) [OF assms(1) inv2 f(1)] by blast
  then have "f = e" using store_entries_token_inj [OF f1 _ e1 f(2)] by blast
  with e f show ?thesis by simp
qed

theorem Cas_no_aba_witness:
  "\<exists>e. st_live 6 ''k'' demo1 = Some e \<and> st_live 7 ''k'' (snd (Store_Get 6 ''k'' demo1)) = Some e
     \<and> si_value e = ''7''"
proof -
  let ?st1 = "snd (Store_Get 6 ''k'' demo1)"
  have "fst (Store_Get 6 ''k'' demo1) = Some \<lparr>it_Value = ''7'', it_CAS = 1\<rparr>" by code_simp
  then have g: "Store_Get 6 ''k'' demo1 = (Some \<lparr>it_Value = ''7'', it_CAS = 1\<rparr>, ?st1)"
    by (metis prod.collapse)
  have "fst (Store_Cas rev 7 ''k'' ''new'' 0 1 ?st1) = Inr ()" by code_simp
  then have c: "Store_Cas rev 7 ''k'' ''new'' 0 (it_CAS \<lparr>it_Value = ''7'', it_CAS = 1\<rparr>) ?st1
      = (Inr (), snd (Store_Cas rev 7 ''k'' ''new'' 0 1 ?st1))"
    by (metis Item.select_convs(2) prod.collapse)
  show ?thesis
    using Cas_no_aba [OF demo_sane demo1_reachable demo_fits g run_none _ iterates_rev c] by simp
qed

section \<open>Increment and delete\<close>

lemma spec_incr_result:
  "fst (spec_incr now k d c n) =
     (case c_live now k c of
        None \<Rightarrow> Inl ErrNotFound
      | Some e \<Rightarrow>
          (let m = decVal 0 (si_value e) + unat d
           in if \<not> isDecimal (si_value e) \<or> 2 ^ 64 \<le> decVal 0 (si_value e) then Inl ErrNotInteger
              else if 2 ^ 64 \<le> m then Inl ErrOverflow
              else if c_maxValueBytes c < int (length (formatNat m)) then Inl ErrValueTooLarge
              else if c_maxMemoryBytes c < c_size c k (formatNat m) then Inl ErrMemoryLimitExceeded
              else Inr (of_nat m)))"
proof -
  have "c_maxValueBytes (c_expire now k c) = c_maxValueBytes c"
    "c_maxMemoryBytes (c_expire now k c) = c_maxMemoryBytes c"
    "c_size (c_expire now k c) k v = c_size c k v" for v
    by (auto simp: c_expire_def c_size_def split: option.split)
  then show ?thesis by (auto simp: spec_incr_def c_lookup_expire Let_def split: option.split)
qed

text \<open>
  C21 (functional).  \<open>Incr\<close> on a live key whose value is a decimal below \<open>2^64\<close> adds without
  wrap-around; missing keys, other values, sums of \<open>2^64\<close> or more and results over the limits are
  the errors the code names, tested in this order.
\<close>

theorem Incr_result:
  assumes "sane_config config" "reachable config m st" "iterates ord" "length k \<le> MaxKeyBytes"
  shows "fst (Store_Incr ord now k d st) =
     (case st_live now k st of
        None \<Rightarrow> Inl ErrNotFound
      | Some e \<Rightarrow>
          (let n = decVal 0 (si_value e) + unat d
           in if \<not> isDecimal (si_value e) \<or> 2 ^ 64 \<le> decVal 0 (si_value e) then Inl ErrNotInteger
              else if 2 ^ 64 \<le> n then Inl ErrOverflow
              else if cf_MaxValueBytes (normalizeConfig config) < int (length (formatNat n))
                then Inl ErrValueTooLarge
              else if perShardMemory (normalizeConfig config)
                  < int (length k) + int (length (formatNat n)) + cf_ItemOverheadBytes (normalizeConfig config)
                then Inl ErrMemoryLimitExceeded
              else Inr (of_nat n)))"
proof -
  note inv = reachable_inv [OF assms(1,2)]
  obtain r st' where c: "Store_Incr ord now k d st = (r, st')" by fastforce
  note a = acts_Incr [OF assms(1) inv assms(3,4) c]
  have "r = fst (spec_incr now k d (abs_shard (home k st)) (st_cas st))" using acts_incr_spec [OF a] by simp
  then show ?thesis
    unfolding c fst_conv spec_incr_result
    using home_limits [OF assms(1) inv, of k] acts_own(1) [OF a, of now]
    by (simp add: c_size_def Let_def split: option.split)
qed

theorem Incr_result_witness:
  "fst (Store_Incr rev 6 ''k'' 5 demo1) = Inr 12 \<and> fst (Store_Incr rev 15 ''k'' 5 demo1) = Inl ErrNotFound"
proof -
  have e: "st_live 6 ''k'' demo1 = Some \<lparr>si_key = ''k'', si_value = ''7'', si_expiresAt = 15, si_size = 5, si_cas = 1\<rparr>"
    "st_live 15 ''k'' demo1 = None" by code_simp+
  have v: "digitVal CHR ''7'' = 7" "isDecimal ''7''" "formatNat 12 = ''12''" "unat (5 :: uint64) = 5"
    "cf_MaxValueBytes (normalizeConfig demo) = 10" "perShardMemory (normalizeConfig demo) = 20"
    "cf_ItemOverheadBytes (normalizeConfig demo) = 3" by code_simp+
  show ?thesis
    unfolding Incr_result [OF demo_sane demo1_reachable iterates_rev demo_fits] e by (simp add: v Let_def)
qed

text \<open>
  C22 (functional).  A successful \<open>Incr\<close> stores the decimal form of the sum it returns under a fresh
  token and keeps the key's deadline; other keys can at most be evicted.
\<close>

theorem Incr_stored:
  assumes "sane_config config" "reachable config m st" "iterates ord" "length k \<le> MaxKeyBytes"
    and "Store_Incr ord now k d st = (Inr n, st')" "now \<le> t"
  shows "\<exists>e. st_live now k st = Some e \<and> unat n = decVal 0 (si_value e) + unat d
    \<and> fst (Store_Get t k st') =
        (if expired e t then None else Some \<lparr>it_Value = formatUint n, it_CAS = st_cas st'\<rparr>)
    \<and> st_cas st' = st_cas st + 1"
proof -
  note inv = reachable_inv [OF assms(1,2)]
  note a = acts_Incr [OF assms(1) inv assms(3,4,5)]
  have inv': "store_inv config st'" using a by (simp add: acts_def)
  obtain r st'' where g: "Store_Get t k st' = (r, st'')" by fastforce
  note b = acts_Get [OF assms(1) inv' assms(4) g]
  obtain e where "c_live now k (abs_shard (home k st)) = Some e"
    "unat n = decVal 0 (si_value e) + unat d" "st_cas st' = st_cas st + 1"
    "c_live t k (abs_shard (home k st')) = (if expired e t then None else
       Some (e\<lparr>si_value := formatUint n, si_size := c_size (abs_shard (home k st)) k (formatUint n),
               si_cas := st_cas st + 1\<rparr>))"
    using spec_incr_ok [OF home_cache_inv [OF assms(1) inv] acts_incr_spec [OF a] assms(6)] by blast
  then show ?thesis
    using acts_get_view(1) [OF assms(1) inv' b] acts_own [OF a] g by auto
qed

theorem Incr_stored_witness:
  "\<exists>e. st_live 6 ''k'' demo1 = Some e \<and> unat (12 :: uint64) = decVal 0 (si_value e) + unat (5 :: uint64)
     \<and> fst (Store_Get 6 ''k'' (snd (Store_Incr rev 6 ''k'' 5 demo1))) =
        (if expired e 6 then None
         else Some \<lparr>it_Value = formatUint 12, it_CAS = st_cas (snd (Store_Incr rev 6 ''k'' 5 demo1))\<rparr>)"
proof -
  have "fst (Store_Incr rev 6 ''k'' 5 demo1) = Inr 12" by code_simp
  then have s: "Store_Incr rev 6 ''k'' 5 demo1 = (Inr 12, snd (Store_Incr rev 6 ''k'' 5 demo1))"
    by (metis prod.collapse)
  show ?thesis
    using Incr_stored [OF demo_sane demo1_reachable iterates_rev demo_fits s order_refl] by blast
qed

text \<open>
  C23 (functional).  \<open>Delete\<close> reports whether the key was live and removes exactly that key.
\<close>

theorem Delete_result:
  assumes "sane_config config" "reachable config m st" "length k \<le> MaxKeyBytes" "now \<le> t"
  shows "fst (Store_Delete now k st) = (st_live now k st \<noteq> None)
    \<and> st_live t j (snd (Store_Delete now k st)) = (if j = k then None else st_live t j st)"
proof -
  note inv = reachable_inv [OF assms(1,2)]
  obtain r st' where c: "Store_Delete now k st = (r, st')" by fastforce
  note a = acts_Delete [OF assms(1) inv assms(3) c]
  note d = spec_delete_result [OF assms(4), where k = k and c = "abs_shard (home k st)"]
  have s: "spec_delete now k (abs_shard (home k st)) = (r, abs_shard (home k st'))"
    using acts_delete_spec [OF a] by simp
  have "st_live t j st' = (if j = k then None else st_live t j st)"
    using d(2) [where j = j] s a by (auto simp: acts_def)
  with d(1) s c acts_own(1) [OF a, of now] show ?thesis by simp
qed

theorem Delete_result_witness:
  "fst (Store_Delete 6 ''k'' demo1) \<and> st_live 6 ''k'' (snd (Store_Delete 6 ''k'' demo1)) = None"
proof -
  have "fst (Store_Delete 6 ''k'' demo1)" by code_simp
  moreover have "st_live 6 ''k'' (snd (Store_Delete 6 ''k'' demo1)) = (if ''k'' = ''k'' then None else st_live 6 ''k'' demo1)"
    by (rule Delete_result [OF demo_sane demo1_reachable demo_fits, THEN conjunct2]) simp
  ultimately show ?thesis by simp
qed

section \<open>Failed writes\<close>

text \<open>
  C24 (error).  A \<open>Set\<close>, \<open>Cas\<close> or \<open>Incr\<close> that returns an error changes nothing a client can see
  and draws no token: no key is lost to an eviction that did not help.
\<close>

theorem failed_write_invisible:
  assumes "sane_config config" "reachable config m st" "iterates ord" "length k \<le> MaxKeyBytes" "now \<le> t"
    and "(Inl e, st') \<in> {Store_Set ord now k v ttl st, Store_Cas ord now k v ttl x st}
       \<or> (Inl e, st') = Store_Incr ord now k d st"
  shows "st_live t j st' = st_live t j st \<and> st_cas st' = st_cas st"
proof -
  note pre = assms(1) reachable_inv [OF assms(1,2)] assms(3,4)
  consider (set) "Store_Set ord now k v ttl st = (Inl e, st')" | (cas) "Store_Cas ord now k v ttl x st = (Inl e, st')"
    | (incr) "Store_Incr ord now k d st = (Inl e, st')" using assms(6) by fastforce
  then show ?thesis
  proof cases
    case set
    note a = acts_Set [OF pre set]
    show ?thesis using spec_set_error [OF acts_set_spec [OF a] assms(5)] acts_same [OF a] by blast
  next
    case cas
    note a = acts_Cas [OF pre cas]
    show ?thesis using spec_cas_error [OF acts_cas_spec [OF a] assms(5)] acts_same [OF a] by blast
  next
    case incr
    note a = acts_Incr [OF pre incr]
    show ?thesis using spec_incr_error [OF acts_incr_spec [OF a] assms(5)] acts_same [OF a] by blast
  qed
qed

theorem failed_write_invisible_witness:
  "st_live 6 ''k'' (snd (Store_Cas rev 6 ''k'' ''new'' 0 9 demo1)) = st_live 6 ''k'' demo1"
proof -
  have "fst (Store_Cas rev 6 ''k'' ''new'' 0 9 demo1) = Inl ErrCasMismatch" by code_simp
  then have s: "(Inl ErrCasMismatch, snd (Store_Cas rev 6 ''k'' ''new'' 0 9 demo1)) = Store_Cas rev 6 ''k'' ''new'' 0 9 demo1"
    by (metis prod.collapse)
  show ?thesis
    by (rule failed_write_invisible [where e = ErrCasMismatch and v = "''new''" and ttl = 0 and x = 9 and d = 0,
          OF demo_sane demo1_reachable iterates_rev demo_fits order_refl, THEN conjunct1]) (subst s, simp)
qed

end
