(* ===== verification/Store_Sweep.thy ===== *)
theory Store_Sweep
  imports Store_Writes
begin

text \<open>
  The loops over all shards: the expiry sweep that the server's ticker calls, and the statistics.
\<close>

section \<open>The expiry sweep\<close>

lemma run_append: "run n b c \<Longrightarrow> run m a b \<Longrightarrow> run (m + n) a c"
  by (induction rule: run.induct) (auto intro: run.intros)

definition swept :: "(nat \<Rightarrow> time) \<Rightarrow> Store \<Rightarrow> nat \<Rightarrow> nat" where
  "swept clock st i = length (filter (\<lambda>e. expired e (clock i)) (c_entries (abs_shard (st_shards st ! i))))"

lemma cleanup_one:
  assumes "sane_config config" "store_inv config st" "iterates ord" "i < length (st_shards st)"
    and "shard_cleanupExpired ord (clock i) (st_shards st ! i) = (removed, sh)"
  shows "store_step st (put_shard i sh (st_cas st) st)"
    and "removed = swept clock st i"
    and "abs_shard sh = c_sweep (clock i) (abs_shard (st_shards st ! i))"
proof -
  let ?sh = "st_shards st ! i"
  have step: "shard_step ord (clock i) DoCleanup ?sh (st_cas st) = (Removed removed, sh, st_cas st)"
    using assms(5) by (simp add: shard_step_def)
  then show "store_step st (put_shard i sh (st_cas st) st)"
    using assms(3,4) by (intro shard_call [where op = DoCleanup]) simp_all
  have si: "shard_inv ?sh" using assms(2,4) by (simp add: store_inv_def Let_def list_all_length)
  have "spec_cleanup (clock i) (abs_shard ?sh) = (removed, abs_shard sh)"
    using shard_step_refines(2) [OF si assms(3) _ step]
    by (auto simp: op_fits_def spec_step_def split: prod.splits)
  with spec_cleanup_result(3) [of "abs_shard ?sh" "clock i"] si
  show "removed = swept clock st i" "abs_shard sh = c_sweep (clock i) (abs_shard ?sh)"
    by (auto simp: swept_def shard_inv_def spec_cleanup_def)
qed

lemma cleanupLoop_sweeps:
  assumes "cleanupLoop ord clock is n st = (n', st')" "sane_config config" "store_inv config st" "iterates ord"
    and "distinct is" "\<forall>i\<in>set is. i < length (st_shards st)"
  shows "run (length is) st st' \<and> n' = n + sum_list (map (swept clock st) is)
    \<and> length (st_shards st') = length (st_shards st) \<and> st_cas st' = st_cas st
    \<and> (\<forall>i. abs_shard (st_shards st' ! i) = (if i \<in> set is then c_sweep (clock i) else id) (abs_shard (st_shards st ! i)))"
  using assms
proof (induction "is" arbitrary: n st)
  case Nil
  then show ?case by (simp add: run_none)
next
  case (Cons i js)
  obtain removed sh where c: "shard_cleanupExpired ord (clock i) (st_shards st ! i) = (removed, sh)" by fastforce
  let ?st = "put_shard i sh (st_cas st) st"
  have i: "i < length (st_shards st)" using Cons.prems(6) by simp
  note one = cleanup_one [where clock = clock, OF Cons.prems(2,3,4) i c]
  have "store_inv config ?st" by (rule store_step_inv [OF Cons.prems(2,3) one(1)])
  then have IH: "run (length js) ?st st' \<and> n' = n + removed + sum_list (map (swept clock ?st) js)
      \<and> length (st_shards st') = length (st_shards ?st) \<and> st_cas st' = st_cas ?st
      \<and> (\<forall>j. abs_shard (st_shards st' ! j)
          = (if j \<in> set js then c_sweep (clock j) else id) (abs_shard (st_shards ?st ! j)))"
    using Cons.prems c by (intro Cons.IH) auto
  have "sum_list (map (swept clock ?st) js) = sum_list (map (swept clock st) js)"
    using Cons.prems(5) i by (intro arg_cong [where f = sum_list]) (auto simp: swept_def nth_list_update)
  moreover have "run (Suc (length js)) st st'"
    using run_append [OF _ run_step [OF run_none one(1)]] IH by fastforce
  ultimately show ?case
    using IH one i Cons.prems(5) by (auto simp: nth_list_update)
qed

text \<open>
  C25 (functional).  \<open>CleanupExpired\<close> removes from every shard exactly the entries whose deadline
  has passed when that shard is visited, whatever order the shard's map is iterated in, returns
  their number, and changes nothing a client can see.
\<close>

theorem CleanupExpired_result:
  assumes "sane_config config" "reachable config m st" "iterates ord"
    and "Store_CleanupExpired ord clock st = (n, st')" "\<forall>i. clock i \<le> t"
  shows "reachable config (m + length (st_shards st)) st'
    \<and> (\<forall>i<length (st_shards st). c_entries (abs_shard (st_shards st' ! i))
         = filter (\<lambda>e. \<not> expired e (clock i)) (c_entries (abs_shard (st_shards st ! i))))
    \<and> n = (\<Sum>i\<leftarrow>[0..<length (st_shards st)].
             length (filter (\<lambda>e. expired e (clock i)) (c_entries (abs_shard (st_shards st ! i)))))
    \<and> st_live t j st' = st_live t j st"
proof -
  note inv = reachable_inv [OF assms(1,2)]
  have "cleanupLoop ord clock [0..<length (st_shards st)] 0 st = (n, st')"
    using assms(4) by (simp add: Store_CleanupExpired_def)
  from cleanupLoop_sweeps [OF this assms(1) inv assms(3)]
  have r: "run (length (st_shards st)) st st'" "n = sum_list (map (swept clock st) [0..<length (st_shards st)])"
    and l: "length (st_shards st') = length (st_shards st)"
    and s: "\<And>i. i < length (st_shards st) \<Longrightarrow>
      abs_shard (st_shards st' ! i) = c_sweep (clock i) (abs_shard (st_shards st ! i))" by simp_all
  have h: "home j st' = st_shards st' ! shardFor j st" by (simp add: home_def shardFor_def l)
  note lt = shardFor_less [OF assms(1) inv, of j]
  have "st_live t j st' = c_live t j (c_sweep (clock (shardFor j st)) (abs_shard (home j st)))"
    using st_live_abs [OF assms(1) run_inv(1) [OF r(1) assms(1) inv]] s [OF lt] h by (simp add: home_def)
  also have "\<dots> = st_live t j st"
    using c_live_sweep [OF home_cache_inv [OF assms(1) inv, of j]] assms(5)
      st_live_abs [OF assms(1) inv, of t j] by simp
  finally have "st_live t j st' = st_live t j st" .
  then show ?thesis
    using r s assms(2) run_append unfolding reachable_def
    by (auto simp: swept_def [abs_def] c_sweep_def c_purge_def)
qed

theorem CleanupExpired_result_witness:
  "fst (Store_CleanupExpired rev (\<lambda>_. 20) demo1) = 1
   \<and> st_live 20 ''k'' (snd (Store_CleanupExpired rev (\<lambda>_. 20) demo1)) = st_live 20 ''k'' demo1"
proof -
  have "fst (Store_CleanupExpired rev (\<lambda>_. 20) demo1) = 1" by code_simp
  moreover have "st_live 20 ''k'' (snd (Store_CleanupExpired rev (\<lambda>_. 20) demo1)) = st_live 20 ''k'' demo1"
    by (rule CleanupExpired_result [OF demo_sane demo1_reachable iterates_rev prod.collapse [symmetric],
          THEN conjunct2, THEN conjunct2, THEN conjunct2]) simp
  ultimately show ?thesis ..
qed

section \<open>Statistics\<close>

lemma foldl_addShardStats:
  "foldl addShardStats out ss =
     \<lparr>ss_Items = ss_Items out + (\<Sum>sh\<leftarrow>ss. int (length (sh_items sh))),
      ss_MemoryBytes = foldl (\<lambda>n sh. go_int (n + sh_memoryBytes sh)) (ss_MemoryBytes out) ss,
      ss_MaxMemoryBytes = foldl (\<lambda>n sh. go_int (n + sh_maxMemoryBytes sh)) (ss_MaxMemoryBytes out) ss,
      ss_Evictions = ss_Evictions out + (\<Sum>sh\<leftarrow>ss. sh_evictions sh),
      ss_Expirations = ss_Expirations out + (\<Sum>sh\<leftarrow>ss. sh_expirations sh),
      ss_ItemsPerShard = ss_ItemsPerShard out @ map (\<lambda>sh. int (length (sh_items sh))) ss,
      ss_NumShards = ss_NumShards out\<rparr>"
  by (induction ss arbitrary: out) (simp_all add: addShardStats_def)

lemma shard_items_entries: "shard_inv sh \<Longrightarrow> length (sh_items sh) = length (c_entries (abs_shard sh))"
  using repr_length by (auto simp: shard_inv_def abs_shard_def cache_of_def)

lemma stats_memory:
  assumes "sane_config config" "store_inv config st"
  shows "ss_MemoryBytes (Store_Stats st) = Store_MemoryBytes st"
    and "ss_MaxMemoryBytes (Store_Stats st)
      = cf_Shards (normalizeConfig config) * perShardMemory (normalizeConfig config)"
proof -
  have li: "list_all shard_inv (st_shards st)" using assms(2) by (simp add: store_inv_def Let_def)
  have "foldl (\<lambda>n sh. go_int (n + sh_maxMemoryBytes sh)) 0 (st_shards st)
      = 0 + sum_list (map sh_maxMemoryBytes (st_shards st))"
    using li shards_budget [OF assms] total_budget(1) [OF assms(1)]
    by (intro foldl_go_int) (auto simp: list_all_iff dest!: shards.inv_memory)
  then show "ss_MaxMemoryBytes (Store_Stats st)
      = cf_Shards (normalizeConfig config) * perShardMemory (normalizeConfig config)"
    using shards_budget [OF assms] by (simp add: Store_Stats_def foldl_addShardStats)
  show "ss_MemoryBytes (Store_Stats st) = Store_MemoryBytes st"
    by (simp add: Store_Stats_def foldl_addShardStats Store_MemoryBytes_def memoryBytesSnapshot_def)
qed

text \<open>
  The snapshot that \<open>stats\<close> reports: the item count is the number of entries, the
  memory is what \<open>MemoryBytes\<close> reports, the budget is the sum of the shards' budgets, computed
  without wrap-around, and the per-shard counts add up to the item count.
\<close>

theorem Stats_totals:
  assumes "sane_config config" "reachable config m st"
  shows "ss_Items (Store_Stats st) = (\<Sum>sh\<leftarrow>st_shards st. int (length (c_entries (abs_shard sh))))
    \<and> ss_MemoryBytes (Store_Stats st) = Store_MemoryBytes st
    \<and> ss_MaxMemoryBytes (Store_Stats st)
        = cf_Shards (normalizeConfig config) * perShardMemory (normalizeConfig config)
    \<and> ss_MemoryBytes (Store_Stats st) \<le> ss_MaxMemoryBytes (Store_Stats st)
    \<and> sum_list (ss_ItemsPerShard (Store_Stats st)) = ss_Items (Store_Stats st)
    \<and> ss_NumShards (Store_Stats st) = cf_Shards (normalizeConfig config)"
proof -
  note inv = reachable_inv [OF assms]
  have li: "list_all shard_inv (st_shards st)" using inv by (simp add: store_inv_def Let_def)
  have "(\<Sum>sh\<leftarrow>st_shards st. int (length (sh_items sh)))
      = (\<Sum>sh\<leftarrow>st_shards st. int (length (c_entries (abs_shard sh))))"
    using li by (intro arg_cong [where f = sum_list]) (auto simp: list_all_iff shard_items_entries)
  moreover have "int (length (st_shards st)) = cf_Shards (normalizeConfig config)"
    using inv normalizeConfig_pos(4) [of config] by (simp add: store_inv_def Let_def)
  ultimately show ?thesis
    using stats_memory [OF assms(1) inv] store_memory(3) [OF assms(1) inv]
    by (simp add: Store_Stats_def foldl_addShardStats)
qed

theorem Stats_totals_witness:
  "ss_Items (Store_Stats demo1) = 1 \<and> ss_MemoryBytes (Store_Stats demo1) = 5
   \<and> ss_MemoryBytes (Store_Stats demo1) \<le> ss_MaxMemoryBytes (Store_Stats demo1)"
proof -
  have "ss_Items (Store_Stats demo1) = 1" "ss_MemoryBytes (Store_Stats demo1) = 5" by code_simp+
  with Stats_totals [OF demo_sane demo1_reachable] show ?thesis by blast
qed

end
