(* ===== verification/Go_Strings.thy ===== *)
theory Go_Strings
  imports Go_Strconv
begin

text \<open>
  Go's view of a string as runes, and the functions of package \<open>strings\<close> that the parser calls.
  \<open>decodeRune\<close> is \<open>utf8.DecodeRuneInString\<close>; \<open>runes\<close> is what a \<open>range\<close> loop over a string
  produces, each rune with the bytes it was decoded from; \<open>Fields\<close> is \<open>strings.Fields\<close>.
\<close>

section \<open>Decoding UTF-8\<close>

type_synonym rune = int

abbreviation rbyte :: "char \<Rightarrow> rune" where
  "rbyte c \<equiv> of_char c"

definition RuneError :: rune where
  "RuneError = 65533"

text \<open>
  The tables \<open>first\<close> and \<open>acceptRanges\<close> of package \<open>utf8\<close>: the length of the sequence that a
  non-ASCII first byte starts, and the range of its second byte.  Length 0 marks a byte that starts
  no sequence.
\<close>

definition firstByte :: "rune \<Rightarrow> nat \<times> rune \<times> rune" where
  "firstByte p0 =
     (if p0 < 194 then (0, 0, 0)
      else if p0 < 224 then (2, 128, 191)
      else if p0 = 224 then (3, 160, 191)
      else if p0 = 237 then (3, 128, 159)
      else if p0 < 240 then (3, 128, 191)
      else if p0 = 240 then (4, 144, 191)
      else if p0 < 244 then (4, 128, 191)
      else if p0 = 244 then (4, 128, 143)
      else (0, 0, 0))"

definition isCont :: "rune \<Rightarrow> bool" where
  "isCont b \<longleftrightarrow> 128 \<le> b \<and> b \<le> 191"

fun decodeRune :: "string \<Rightarrow> rune \<times> nat" where
  "decodeRune [] = (RuneError, 0)"
| "decodeRune (b0 # t) =
     (let p0 = rbyte b0; (sz, lo, hi) = firstByte p0
      in if p0 < 128 then (p0, 1)
         else if sz = 0 \<or> length (b0 # t) < sz then (RuneError, 1)
         else let b1 = rbyte (t ! 0)
              in if b1 < lo \<or> hi < b1 then (RuneError, 1)
                 else if sz \<le> 2 then ((p0 mod 32) * 64 + b1 mod 64, 2)
                 else let b2 = rbyte (t ! 1)
                      in if \<not> isCont b2 then (RuneError, 1)
                         else if sz \<le> 3 then ((p0 mod 16) * 4096 + (b1 mod 64) * 64 + b2 mod 64, 3)
                         else let b3 = rbyte (t ! 2)
                              in if \<not> isCont b3 then (RuneError, 1)
                                 else ((p0 mod 8) * 262144 + (b1 mod 64) * 4096
                                       + (b2 mod 64) * 64 + b3 mod 64, 4))"

lemma firstByte_size: "firstByte p = (sz, lo, hi) \<Longrightarrow> sz = 0 \<or> sz = 2 \<or> sz = 3 \<or> sz = 4"
  by (auto simp: firstByte_def split: if_splits)

lemma decodeRune_width:
  assumes "s \<noteq> []"
  shows "0 < snd (decodeRune s) \<and> snd (decodeRune s) \<le> length s"
proof -
  obtain b t where s: "s = b # t" using assms by (cases s) auto
  obtain sz lo hi where f: "firstByte (rbyte b) = (sz, lo, hi)" by (metis prod_cases3)
  from firstByte_size [OF f] f show ?thesis unfolding s by (elim disjE) (auto simp: Let_def Suc_le_eq)
qed

declare decodeRune.simps [simp del]

text \<open>\<open>for _, r := range s\<close>, each rune with its bytes.\<close>

function runes :: "string \<Rightarrow> (rune \<times> string) list" where
  "runes s = (if s = [] then []
     else let (r, n) = decodeRune s in (r, take n s) # runes (drop n s))"
  by pat_completeness auto
termination
  by (relation "measure length") (use decodeRune_width in \<open>force simp: prod_eq_iff\<close>)+

declare runes.simps [simp del]

section \<open>Fields, ToLower\<close>

text \<open>\<open>unicode.IsSpace\<close>.  On ASCII strings \<open>strings.Fields\<close> splits at the same bytes.\<close>

definition isSpace :: "rune \<Rightarrow> bool" where
  "isSpace r \<longleftrightarrow> r \<in> {9, 10, 11, 12, 13, 32, 133, 160, 5760, 8232, 8233, 8239, 8287, 12288}
     \<or> 8192 \<le> r \<and> r \<le> 8202"

fun fieldsLoop :: "(rune \<times> string) list \<Rightarrow> string \<Rightarrow> string list" where
  "fieldsLoop [] cur = (if cur = [] then [] else [cur])"
| "fieldsLoop ((r, b) # rs) cur =
     (if isSpace r then (if cur = [] then fieldsLoop rs [] else cur # fieldsLoop rs [])
      else fieldsLoop rs (cur @ b))"

definition Fields :: "string \<Rightarrow> string list" where
  "Fields s = fieldsLoop (runes s) []"

text \<open>
  \<open>unicode.ToLower\<close> where its result is ASCII: the capital letters, the other ASCII runes, and the
  two non-ASCII runes with an ASCII lower case, U+0130 and U+212A.
\<close>

definition lowerAscii :: "rune \<Rightarrow> char option" where
  "lowerAscii r =
     (if 65 \<le> r \<and> r \<le> 90 then Some (char_of (r + 32))
      else if r < 128 then Some (char_of r)
      else if r = 304 then Some (CHR ''i'')
      else if r = 8490 then Some (CHR ''k'')
      else None)"

text \<open>
  \<open>strings.ToLower s\<close> when the result is an ASCII string, which is all that a comparison with an
  ASCII literal can see; \<open>None\<close> when the result has a non-ASCII rune.
\<close>

fun lowerLoop :: "(rune \<times> string) list \<Rightarrow> string option" where
  "lowerLoop [] = Some []"
| "lowerLoop ((r, _) # rs) =
     (case lowerAscii r of
        None \<Rightarrow> None
      | Some c \<Rightarrow> map_option (\<lambda>cs. c # cs) (lowerLoop rs))"

definition toLower :: "string \<Rightarrow> string option" where
  "toLower s = lowerLoop (runes s)"

section \<open>Runes and bytes\<close>

lemma runes_Nil [simp]: "runes [] = []"
  by (simp add: runes.simps)

lemma runes_bytes: "concat (map snd (runes s)) = s"
proof (induction s rule: runes.induct)
  case (1 s)
  show ?case
  proof (cases "s = []")
    case False
    obtain r n where d: "decodeRune s = (r, n)" by fastforce
    with 1 [OF False, of _ r n] False show ?thesis by (subst runes.simps) simp
  qed simp
qed

text \<open>
  The decoder looks no further than it has to: cutting the string at or after the end of a rune, or
  continuing it with an ASCII byte, does not change the rune.
\<close>

lemma decodeRune_prefix:
  assumes "snd (decodeRune (s @ t)) \<le> length s" "s \<noteq> []"
  shows "decodeRune (s @ t) = decodeRune s"
proof -
  obtain b u where s: "s = b # u" using assms by (cases s) auto
  obtain sz lo hi where f: "firstByte (rbyte b) = (sz, lo, hi)" by (metis prod_cases3)
  show ?thesis
  proof (cases "length s < sz")
    case True
    then have "decodeRune s = (if rbyte b < 128 then (rbyte b, 1) else (RuneError, 1))"
      using f s by (simp add: decodeRune.simps)
    moreover have "decodeRune (s @ t) = (if rbyte b < 128 then (rbyte b, 1) else (RuneError, 1))"
      using True assms(1) f firstByte_size [OF f] unfolding s
      by (elim disjE) (simp_all add: decodeRune.simps Let_def split: if_splits)
    ultimately show ?thesis by simp
  next
    case False
    then have nth: "(u @ t) ! i = u ! i" if "Suc i < sz" for i
      using that s by (simp add: nth_append)
    from False show ?thesis
      using f firstByte_size [OF f] nth [of 0] nth [of 1] nth [of 2] unfolding s
      by (elim disjE) (simp_all add: decodeRune.simps Let_def)
  qed
qed

lemma mod_block:
  fixes x :: int
  assumes "a * m \<le> x" "x < a * m + m"
  shows "x mod m = x - a * m"
proof -
  have "x mod m = (x - a * m + a * m) mod m" using assms(1) by simp
  also have "\<dots> = (x - a * m) mod m" by (rule mod_mult_self1)
  finally show ?thesis using assms by simp
qed

lemma firstByte_lead:
  assumes "firstByte p = (sz, lo, hi)" "sz \<noteq> 0"
  shows "128 \<le> lo" "hi \<le> 191" "sz = 2 \<Longrightarrow> 2 \<le> p mod 32"
    "sz = 3 \<Longrightarrow> 1 \<le> p mod 16 \<or> 160 \<le> lo" "sz = 4 \<Longrightarrow> 1 \<le> p mod 8 \<or> 144 \<le> lo"
  using assms mod_block [of 6 32 p] mod_block [of 14 16 p] mod_block [of 30 8 p]
  by (auto simp: firstByte_def split: if_splits)

lemma rune4_high:
  "1 \<le> a \<or> 16 \<le> b \<Longrightarrow> 0 \<le> a \<Longrightarrow> 0 \<le> b \<Longrightarrow> 0 \<le> c \<Longrightarrow> 0 \<le> d \<Longrightarrow>
   (128 :: int) \<le> a * 262144 + b * 4096 + c * 64 + d"
  by auto

lemma decodeRune_high:
  assumes "decodeRune (b # t) = (r, n)" "\<not> rbyte b < 128"
  shows "128 \<le> r" "i < n - 1 \<Longrightarrow> 128 \<le> rbyte (t ! i)"
proof -
  obtain sz lo hi where f: "firstByte (rbyte b) = (sz, lo, hi)" by (metis prod_cases3)
  have m: "lo \<le> x mod 64 + 128" if "lo \<le> x" "x \<le> hi" "sz \<noteq> 0" for x
    using that firstByte_lead(1,2) [OF f] mod_block [of 2 64 x] by auto
  consider "sz = 0" | "sz = 2" | "sz = 3" | "sz = 4" using firstByte_size [OF f] by blast
  then have "128 \<le> r \<and> (\<forall>i<n - 1. 128 \<le> rbyte (t ! i))"
  proof cases
    case 1
    then show ?thesis using assms f by (auto simp: decodeRune.simps Let_def RuneError_def)
  next
    case 2
    then show ?thesis
      using assms f firstByte_lead [OF f]
      by (auto simp: decodeRune.simps Let_def RuneError_def split: if_splits)
  next
    case 3
    then show ?thesis
      using assms f firstByte_lead [OF f] m [of "rbyte (t ! 0)"]
      by (auto simp: decodeRune.simps Let_def RuneError_def isCont_def split: if_splits dest!: less_2_cases)
  next
    case 4
    then show ?thesis
      using assms f firstByte_lead [OF f] m [of "rbyte (t ! 0)"]
      by (auto simp: decodeRune.simps Let_def RuneError_def isCont_def less_Suc_eq numeral_3_eq_3 numeral_2_eq_2
          intro!: rune4_high split: if_splits)
  qed
  then show "128 \<le> r" "i < n - 1 \<Longrightarrow> 128 \<le> rbyte (t ! i)" by auto
qed

lemma decodeRune_low: "rbyte b < 128 \<Longrightarrow> decodeRune (b # t) = (rbyte b, 1)"
  by (simp add: decodeRune.simps Let_def split: prod.split)

lemma decodeRune_ascii_next:
  assumes "s \<noteq> []" "t = [] \<or> rbyte (hd t) < 128"
  shows "decodeRune (s @ t) = decodeRune s"
proof (rule decodeRune_prefix [OF _ assms(1)], rule ccontr)
  assume n: "\<not> snd (decodeRune (s @ t)) \<le> length s"
  obtain b u where s: "s = b # u" using assms(1) by (cases s) auto
  obtain r n where d: "decodeRune (b # u @ t) = (r, n)" by fastforce
  have t: "t \<noteq> []" using n decodeRune_width [of "s @ t"] s by force
  have "\<not> rbyte b < 128" using n d decodeRune_low [of b "u @ t"] s by auto
  moreover have "length u < n - 1" using n d s by auto
  ultimately have "128 \<le> rbyte ((u @ t) ! length u)" using decodeRune_high(2) [OF d] by blast
  with assms(2) t
  show False by (simp add: nth_append hd_conv_nth)
qed

lemma runes_ascii: "rbyte c < 128 \<Longrightarrow> runes (c # t) = (rbyte c, [c]) # runes t"
  by (subst runes.simps) (simp add: decodeRune_low)

lemma runes_append:
  assumes "t = [] \<or> rbyte (hd t) < 128"
  shows "runes (s @ t) = runes s @ runes t"
proof (induction s rule: runes.induct)
  case (1 s)
  show ?case
  proof (cases "s = []")
    case False
    obtain r n where d: "decodeRune s = (r, n)" by fastforce
    have d': "decodeRune (s @ t) = (r, n)" using decodeRune_ascii_next [OF False assms] d by simp
    have "n \<le> length s" using decodeRune_width [OF False] d by simp
    with 1 [OF False, of _ r n] False d d' show ?thesis
      by (subst runes.simps, subst (2) runes.simps) simp
  qed simp
qed

lemma runes_nonempty: "(r, b) \<in> set (runes s) \<Longrightarrow> b \<noteq> []"
proof (induction s rule: runes.induct)
  case (1 s)
  show ?case
  proof (cases "s = []")
    case False
    obtain q n where d: "decodeRune s = (q, n)" by fastforce
    with 1(1) [OF False, of _ q n] 1(2) False decodeRune_width [OF False] show ?thesis
      by (subst (asm) runes.simps) auto
  qed (use 1(2) in simp)
qed

text \<open>A run of consecutive runes of a string decodes to itself.\<close>

lemma runes_left: "runes s = xs @ ys \<Longrightarrow> runes (concat (map snd xs)) = xs"
proof (induction xs arbitrary: s)
  case (Cons x xs)
  have ne: "s \<noteq> []" using Cons.prems by auto
  obtain r n where d: "decodeRune s = (r, n)" by fastforce
  have x: "x = (r, take n s)" "runes (drop n s) = xs @ ys"
    using Cons.prems ne d by (subst (asm) runes.simps, simp)+
  let ?p = "take n s @ concat (map snd xs)"
  have n: "0 < n" "n \<le> length s" using decodeRune_width [OF ne] d by auto
  have "drop n s = concat (map snd xs) @ concat (map snd ys)"
    using runes_bytes [of "drop n s"] x(2) by simp
  then have "s = ?p @ concat (map snd ys)" by (metis append.assoc append_take_drop_id)
  moreover have "?p \<noteq> []" "n \<le> length ?p" using n ne by auto
  ultimately have "decodeRune ?p = (r, n)"
    using decodeRune_prefix [of ?p "concat (map snd ys)"] d by (metis append.assoc snd_conv)
  then show ?case
    using Cons.IH [OF x(2)] x(1) n by (subst runes.simps) auto
qed simp

lemma runes_right: "runes s = xs @ ys \<Longrightarrow> runes (concat (map snd ys)) = ys"
proof (induction xs arbitrary: s)
  case Nil
  then show ?case using runes_bytes [of s] by simp
next
  case (Cons x xs)
  have ne: "s \<noteq> []" using Cons.prems by auto
  obtain r n where d: "decodeRune s = (r, n)" by fastforce
  have "runes (drop n s) = xs @ ys" using Cons.prems ne d by (subst (asm) runes.simps) simp
  then show ?case by (rule Cons.IH)
qed

lemma runes_infix: "runes s = xs @ ys @ zs \<Longrightarrow> runes (concat (map snd ys)) = ys"
  using runes_left runes_right by (metis append.assoc)

text \<open>A test that all non-ASCII runes pass can be made byte by byte.\<close>

lemma runes_all_bytes:
  assumes "\<And>x. 128 \<le> x \<Longrightarrow> P x"
  shows "(\<forall>(r, b)\<in>set (runes s). P r) \<longleftrightarrow> (\<forall>c\<in>set s. P (rbyte c))"
proof (induction s rule: runes.induct)
  case (1 s)
  show ?case
  proof (cases s)
    case (Cons b t)
    obtain r n where d: "decodeRune s = (r, n)" by fastforce
    have ne: "s \<noteq> []" using Cons by simp
    have IH: "(\<forall>(r, b)\<in>set (runes (drop n s)). P r) \<longleftrightarrow> (\<forall>c\<in>set (drop n s). P (rbyte c))"
      using 1 [OF ne, of _ r n] d by simp
    have first: "P r \<longleftrightarrow> (\<forall>c\<in>set (take n s). P (rbyte c))"
    proof (cases "rbyte b < 128")
      case True
      then show ?thesis using d decodeRune_low [OF True, of t] Cons by auto
    next
      case False
      have "128 \<le> rbyte c" if "c \<in> set (take n s)" for c
        using that False decodeRune_high(2) [of b t r n] d Cons
        by (auto simp: in_set_conv_nth nth_Cons split: nat.splits)
      then show ?thesis using decodeRune_high(1) [of b t r n] False d Cons assms by auto
    qed
    have "set s = set (take n s) \<union> set (drop n s)" by (metis append_take_drop_id set_append)
    with first IH ne d show ?thesis by (subst runes.simps) auto
  qed simp
qed

section \<open>Splitting into fields\<close>

definition isWord :: "string \<Rightarrow> bool" where
  "isWord w \<longleftrightarrow> w \<noteq> [] \<and> list_all (\<lambda>(r, b). \<not> isSpace r) (runes w)"

text \<open>The words of a command line, separated by single spaces.\<close>

fun unwords :: "string list \<Rightarrow> string" where
  "unwords [] = []"
| "unwords [w] = w"
| "unwords (w # v # ws) = w @ CHR '' '' # unwords (v # ws)"

lemma fieldsLoop_infix:
  assumes "f \<in> set (fieldsLoop rs (concat (map snd cs)))" "list_all (\<lambda>(r, b). \<not> isSpace r) cs"
  shows "\<exists>xs ys zs. cs @ rs = xs @ ys @ zs \<and> f = concat (map snd ys) \<and> f \<noteq> []
    \<and> list_all (\<lambda>(r, b). \<not> isSpace r) ys"
  using assms
proof (induction rs arbitrary: cs)
  case Nil
  then show ?case by (intro exI [of _ "[]"] exI [of _ cs] exI [of _ "[]"]) (auto split: if_splits)
next
  case (Cons x rs)
  obtain r b where x: "x = (r, b)" by fastforce
  show ?case
  proof (cases "isSpace r")
    case False
    with Cons.prems x have "f \<in> set (fieldsLoop rs (concat (map snd (cs @ [x]))))"
      "list_all (\<lambda>(r, b). \<not> isSpace r) (cs @ [x])" by auto
    from Cons.IH [OF this] show ?thesis by simp
  next
    case True
    show ?thesis
    proof (cases "f \<in> set (fieldsLoop rs [])")
      case True
      with Cons.IH [of "[]"] obtain xs ys zs where "rs = xs @ ys @ zs" "f = concat (map snd ys)" "f \<noteq> []"
        "list_all (\<lambda>(r, b). \<not> isSpace r) ys" by auto
      then show ?thesis by (intro exI [of _ "cs @ x # xs"] exI [of _ ys] exI [of _ zs]) simp
    next
      case False
      with True Cons.prems x show ?thesis
        by (intro exI [of _ "[]"] exI [of _ cs] exI [of _ "x # rs"]) (auto split: if_splits)
    qed
  qed
qed

lemma fields_word:
  assumes "f \<in> set (Fields s)"
  shows "isWord f"
proof -
  obtain xs ys zs where "runes s = xs @ ys @ zs" "f = concat (map snd ys)" "f \<noteq> []"
    "list_all (\<lambda>(r, b). \<not> isSpace r) ys"
    using fieldsLoop_infix [of f "runes s" "[]"] assms by (auto simp: Fields_def)
  then show ?thesis using runes_infix [of s xs ys zs] by (simp add: isWord_def)
qed

lemma fieldsLoop_word:
  "list_all (\<lambda>(r, b). \<not> isSpace r) cs \<Longrightarrow> fieldsLoop (cs @ rs) cur = fieldsLoop rs (cur @ concat (map snd cs))"
  by (induction cs arbitrary: cur) auto

lemma isSpace_32 [simp]: "isSpace 32"
  by (simp add: isSpace_def)

lemma fields_single: "isWord w \<Longrightarrow> Fields w = [w]"
  using fieldsLoop_word [of "runes w" "[]" "[]"] by (simp add: Fields_def isWord_def runes_bytes)

lemma fields_Cons: "isWord w \<Longrightarrow> Fields (w @ CHR '' '' # t) = w # Fields t"
  using fieldsLoop_word [of "runes w" "runes (CHR '' '' # t)" "[]"]
  by (simp add: Fields_def isWord_def runes_bytes runes_append runes_ascii)

lemma fields_unwords: "list_all isWord ws \<Longrightarrow> Fields (unwords ws) = ws"
  by (induction ws rule: unwords.induct) (simp_all add: fields_single fields_Cons, simp add: Fields_def)

lemma isWord_ascii: "w \<noteq> [] \<Longrightarrow> \<forall>c\<in>set w. 32 < rbyte c \<and> rbyte c < 128 \<Longrightarrow> isWord w"
proof -
  assume ne: "w \<noteq> []" and w: "\<forall>c\<in>set w. 32 < rbyte c \<and> rbyte c < 128"
  have "runes w = map (\<lambda>c. (rbyte c, [c])) w" using w by (induction w) (auto simp: runes_ascii)
  with ne w show ?thesis by (auto simp: isWord_def list_all_iff isSpace_def)
qed

lemma isDigit_rune: "isDigit c \<longleftrightarrow> 48 \<le> rbyte c \<and> rbyte c \<le> 57"
proof -
  have "rbyte c = int (byte c)" by (simp add: of_nat_of_char)
  then show ?thesis by (simp add: isDigit_def)
qed

lemma isWord_digits: "ds \<noteq> [] \<Longrightarrow> list_all isDigit ds \<Longrightarrow> isWord ds"
  by (intro isWord_ascii) (auto simp: list_all_iff isDigit_rune)

lemma isWord_format [simp]: "isWord (formatNat n)" "isWord (formatUint w)"
  by (simp_all add: isWord_digits formatNat_digits)

end
