(* ===== verification/Protocol.thy ===== *)
theory Protocol
  imports Go_Strings
begin

text \<open>
  The wire protocol parser of \<open>internal/protocol/protocol.go\<close>.  A connection's input is the bytes
  that the peer sends and the way the stream then ends.  \<open>ReadCommand\<close> returns a command or an
  error, together with the input that is left; a Go run-time panic is the error \<open>Panic\<close>.
\<close>

section \<open>Input\<close>

datatype stream_end = EndEOF | EndTimeout | EndFailed

record input =
  in_data :: bytes
  in_end :: stream_end

datatype read_error =
    IOEOF
  | NetTimeout
  | NetError
  | ProtocolError string
  | Panic

fun end_error :: "stream_end \<Rightarrow> read_error" where
  "end_error EndEOF = IOEOF"
| "end_error EndTimeout = NetTimeout"
| "end_error EndFailed = NetError"

abbreviation CR :: char where
  "CR \<equiv> CHR 0x0D"

abbreviation LF :: char where
  "LF \<equiv> CHR 0x0A"

text \<open>The buffer size of \<open>bufio.NewReader\<close>, and the largest slice that \<open>make\<close> does not reject.\<close>

definition bufferSize :: nat where
  "bufferSize = 4096"

definition maxAlloc :: int where
  "maxAlloc = 2 ^ 48"

definition protocolError :: "string \<Rightarrow> read_error" where
  "protocolError message = ProtocolError message"

text \<open>
  \<open>reader.ReadSlice('\n')\<close>: the line with its newline; an error when the buffer fills up before a
  newline is seen, or when the stream ends before one.
\<close>

definition readLineSlice :: "input \<Rightarrow> (read_error + bytes) \<times> input" where
  "readLineSlice inp =
     (let pre = takeWhile (\<lambda>c. c \<noteq> LF) (in_data inp); post = dropWhile (\<lambda>c. c \<noteq> LF) (in_data inp)
      in if bufferSize \<le> length pre
         then (Inl (protocolError ''command line too long''), inp\<lparr>in_data := drop bufferSize (in_data inp)\<rparr>)
         else if post = [] then (Inl (end_error (in_end inp)), inp\<lparr>in_data := []\<rparr>)
         else (Inr (pre @ [LF]), inp\<lparr>in_data := tl post\<rparr>))"

text \<open>\<open>value := make([]byte, size+2); io.ReadFull(reader, value)\<close> and the test of the terminator.\<close>

definition readValue :: "int \<Rightarrow> input \<Rightarrow> (read_error + bytes) \<times> input" where
  "readValue sz inp =
     (let n = go_int (sz + 2)
      in if n < 0 \<or> maxAlloc < n then (Inl Panic, inp)
         else if int (length (in_data inp)) < n
         then (Inl (protocolError ''incomplete value''), inp\<lparr>in_data := []\<rparr>)
         else let v = take (nat n) (in_data inp); inp = inp\<lparr>in_data := drop (nat n) (in_data inp)\<rparr>
              in if v ! nat sz \<noteq> CR \<or> v ! nat (sz + 1) \<noteq> LF
                 then (Inl (protocolError ''value must end with CRLF''), inp)
                 else (Inr (take (nat sz) v), inp))"

section \<open>Commands\<close>

datatype Op = OpGet | OpSet | OpDelete | OpIncr | OpPing | OpAuth | OpMget | OpGets | OpCas | OpStats

record Command =
  cmd_Op :: Op
  cmd_Key :: key
  cmd_Keys :: "key list"
  cmd_Value :: bytes
  cmd_TTLSeconds :: uint64
  cmd_Delta :: uint64
  cmd_Token :: string
  cmd_CAS :: uint64

text \<open>\<open>Command{Op: op}\<close>, all other fields zero.\<close>

definition newCommand :: "Op \<Rightarrow> Command" where
  "newCommand op = \<lparr>cmd_Op = op, cmd_Key = [], cmd_Keys = [], cmd_Value = [], cmd_TTLSeconds = 0,
     cmd_Delta = 0, cmd_Token = [], cmd_CAS = 0\<rparr>"

definition validKey :: "string \<Rightarrow> bool" where
  "validKey key \<longleftrightarrow> key \<noteq> [] \<and> length key \<le> MaxKeyBytes
     \<and> list_all (\<lambda>(r, _). \<not> (r \<le> 32 \<or> r = 127)) (runes key)"

definition validToken :: "string \<Rightarrow> bool" where
  "validToken token \<longleftrightarrow> validKey token"

definition parseUintToken :: "string \<Rightarrow> string \<Rightarrow> read_error + uint64" where
  "parseUintToken token name =
     (if token = [] then Inl (protocolError (name @ '' must be an unsigned integer''))
      else if \<not> list_all (\<lambda>(r, _). \<not> (r < 48 \<or> 57 < r)) (runes token)
      then Inl (protocolError (name @ '' must be an unsigned integer''))
      else case parseUint token of
             Inl _ \<Rightarrow> Inl (protocolError (name @ '' is too large''))
           | Inr v \<Rightarrow> Inr v)"

definition parseByteCount :: "string \<Rightarrow> read_error + int" where
  "parseByteCount token =
     (case parseUintToken token ''byte count'' of
        Inl e \<Rightarrow> Inl e
      | Inr v \<Rightarrow> if maxInt64 < int (unat v) then Inl (protocolError ''byte count is too large'')
               else Inr (int (unat v)))"

definition keysFromFields :: "string list \<Rightarrow> read_error + key list" where
  "keysFromFields fs =
     (if fs = [] then Inl (protocolError ''at least one key is required'')
      else if \<not> list_all validKey fs then Inl (protocolError ''invalid key'')
      else Inr fs)"

section \<open>ReadCommand\<close>

text \<open>The optional TTL field of \<open>set\<close> and \<open>cas\<close>.\<close>

definition optTTL :: "bool \<Rightarrow> string \<Rightarrow> read_error + uint64" where
  "optTTL present token = (if present then parseUintToken token ''TTL'' else Inr 0)"

definition readSet :: "string list \<Rightarrow> input \<Rightarrow> (read_error + Command) \<times> input" where
  "readSet fs inp =
     (if (length fs \<noteq> 3 \<and> length fs \<noteq> 4) \<or> \<not> validKey (fs ! 1)
      then (Inl (protocolError ''usage: set <key> [ttl-seconds] <bytes>''), inp)
      else case optTTL (length fs = 4) (fs ! 2) of
        Inl e \<Rightarrow> (Inl e, inp)
      | Inr ttl \<Rightarrow>
          (case parseByteCount (fs ! (if length fs = 4 then 3 else 2)) of
             Inl e \<Rightarrow> (Inl e, inp)
           | Inr sz \<Rightarrow>
               (case readValue sz inp of
                  (Inl e, inp) \<Rightarrow> (Inl e, inp)
                | (Inr v, inp) \<Rightarrow>
                    (Inr ((newCommand OpSet)\<lparr>cmd_Key := fs ! 1, cmd_Value := v, cmd_TTLSeconds := ttl\<rparr>), inp))))"

definition readCas :: "string list \<Rightarrow> input \<Rightarrow> (read_error + Command) \<times> input" where
  "readCas fs inp =
     (if length fs \<noteq> 4 \<and> length fs \<noteq> 5 \<or> \<not> validKey (fs ! 1)
      then (Inl (protocolError ''usage: cas <key> [<ttl-seconds>] <cas-version> <bytes>''), inp)
      else case optTTL (length fs = 5) (fs ! 2) of
        Inl e \<Rightarrow> (Inl e, inp)
      | Inr ttl \<Rightarrow>
          (case parseUintToken (fs ! (if length fs = 4 then 2 else 3)) ''cas-version'' of
             Inl e \<Rightarrow> (Inl e, inp)
           | Inr version \<Rightarrow>
               (case parseByteCount (fs ! (if length fs = 4 then 3 else 4)) of
                  Inl e \<Rightarrow> (Inl e, inp)
                | Inr sz \<Rightarrow>
                    (case readValue sz inp of
                       (Inl e, inp) \<Rightarrow> (Inl e, inp)
                     | (Inr v, inp) \<Rightarrow>
                         (Inr ((newCommand OpCas)\<lparr>cmd_Key := fs ! 1, cmd_Value := v,
                             cmd_TTLSeconds := ttl, cmd_CAS := version\<rparr>), inp)))))"

text \<open>The commands without a value block; they read no more input.\<close>

definition parseLine :: "string \<Rightarrow> string list \<Rightarrow> read_error + Command" where
  "parseLine name fs =
     (if name = ''ping'' then
        if length fs \<noteq> 1 then Inl (protocolError ''usage: ping'') else Inr (newCommand OpPing)
      else if name = ''auth'' then
        if length fs \<noteq> 2 \<or> \<not> validToken (fs ! 1) then Inl (protocolError ''usage: auth <token>'')
        else Inr ((newCommand OpAuth)\<lparr>cmd_Token := fs ! 1\<rparr>)
      else if name = ''get'' then
        if length fs \<noteq> 2 \<or> \<not> validKey (fs ! 1) then Inl (protocolError ''usage: get <key>'')
        else Inr ((newCommand OpGet)\<lparr>cmd_Key := fs ! 1\<rparr>)
      else if name = ''delete'' then
        if length fs \<noteq> 2 \<or> \<not> validKey (fs ! 1) then Inl (protocolError ''usage: delete <key>'')
        else Inr ((newCommand OpDelete)\<lparr>cmd_Key := fs ! 1\<rparr>)
      else if name = ''incr'' then
        if length fs \<noteq> 3 \<or> \<not> validKey (fs ! 1) then Inl (protocolError ''usage: incr <key> <delta>'')
        else case parseUintToken (fs ! 2) ''delta'' of
               Inl e \<Rightarrow> Inl e
             | Inr delta \<Rightarrow> Inr ((newCommand OpIncr)\<lparr>cmd_Key := fs ! 1, cmd_Delta := delta\<rparr>)
      else if name = ''stats'' then
        if length fs \<noteq> 1 then Inl (protocolError ''usage: stats'') else Inr (newCommand OpStats)
      else if name = ''mget'' then
        case keysFromFields (tl fs) of Inl e \<Rightarrow> Inl e | Inr ks \<Rightarrow> Inr ((newCommand OpMget)\<lparr>cmd_Keys := ks\<rparr>)
      else if name = ''gets'' then
        case keysFromFields (tl fs) of Inl e \<Rightarrow> Inl e | Inr ks \<Rightarrow> Inr ((newCommand OpGets)\<lparr>cmd_Keys := ks\<rparr>)
      else Inl (protocolError ''unknown command''))"

definition parseFields :: "string list \<Rightarrow> input \<Rightarrow> (read_error + Command) \<times> input" where
  "parseFields fs inp =
     (case toLower (hd fs) of
        None \<Rightarrow> (Inl (protocolError ''unknown command''), inp)
      | Some name \<Rightarrow>
          if name = ''set'' then readSet fs inp
          else if name = ''cas'' then readCas fs inp
          else (parseLine name fs, inp))"

definition ReadCommand :: "input \<Rightarrow> (read_error + Command) \<times> input" where
  "ReadCommand inp =
     (case readLineSlice inp of
        (Inl e, inp) \<Rightarrow> (Inl e, inp)
      | (Inr lineBytes, inp) \<Rightarrow>
          if length lineBytes < 2 \<or> lineBytes ! (length lineBytes - 2) \<noteq> CR
          then (Inl (protocolError ''command line must end with CRLF''), inp)
          else let fs = Fields (take (length lineBytes - 2) lineBytes)
               in if fs = [] then (Inl (protocolError ''empty command''), inp)
                  else parseFields fs inp)"

end
