(* ===== verification/Protocol_Props.thy ===== *)
theory Protocol_Props
  imports Protocol
begin

text \<open>
  Correctness of the parser: the rune-by-rune checks are byte checks, every command has a canonical
  encoding that the parser reads back, every command that the parser returns is well formed, and
  the parser consumes a nonempty prefix of its input.
\<close>

section \<open>Checks on tokens\<close>

lemma validKey_runes:
  "validKey k \<longleftrightarrow> k \<noteq> [] \<and> length k \<le> MaxKeyBytes \<and> (\<forall>c\<in>set k. 32 < rbyte c \<and> rbyte c \<noteq> 127)"
  using runes_all_bytes [of "\<lambda>r. \<not> (r \<le> 32 \<or> r = 127)" k]
  by (auto simp: validKey_def list_all_iff not_le)

lemma digits_runes: "list_all (\<lambda>(r, b). \<not> (r < 48 \<or> 57 < r)) (runes t) \<longleftrightarrow> list_all isDigit t"
proof -
  have "list_all (\<lambda>(r, b). \<not> (r < 48 \<or> 57 < r)) (runes t) \<longleftrightarrow> (\<forall>c\<in>set t. isDigit c)"
  proof (induction t rule: runes.induct)
    case (1 s)
    show ?case
    proof (cases s)
      case (Cons b t)
      obtain r n where d: "decodeRune s = (r, n)" by fastforce
      show ?thesis
      proof (cases "rbyte b < 128")
        case True
        then have "runes s = (rbyte b, [b]) # runes t" using Cons by (simp add: runes_ascii)
        moreover have "drop n s = t" using d Cons decodeRune_low [OF True, of t] by auto
        ultimately show ?thesis using 1 [of _ r n] d Cons by (auto simp: isDigit_rune)
      next
        case False
        then have "\<not> isDigit b" "57 < r" using decodeRune_high(1) [of b t r n] d Cons by (auto simp: isDigit_rune)
        then show ?thesis using d Cons by (subst runes.simps) auto
      qed
    qed simp
  qed
  then show ?thesis by (simp add: list_all_iff)
qed

lemma parseUintToken_eq:
  "parseUintToken t name =
     (if t = [] \<or> \<not> list_all isDigit t then Inl (protocolError (name @ '' must be an unsigned integer''))
      else if decVal 0 t < 2 ^ 64 then Inr (of_nat (decVal 0 t))
      else Inl (protocolError (name @ '' is too large'')))"
  unfolding parseUintToken_def digits_runes by (auto simp: parseUint_eq)

lemma parseUintToken_format [simp]: "parseUintToken (formatUint w) name = Inr w"
  using unat_less64 [of w] by (simp add: parseUintToken_eq formatNat_digits formatUint_def)

lemma parseByteCount_format: "n < 2 ^ 63 \<Longrightarrow> parseByteCount (formatNat n) = Inr (int n)"
  by (simp add: parseByteCount_def parseUintToken_eq formatNat_digits maxInt64_def unat_of_nat)

section \<open>Canonical encoding\<close>

definition wfKey :: "key \<Rightarrow> bool" where
  "wfKey k \<longleftrightarrow> validKey k \<and> isWord k"

definition cmdLine :: "Command \<Rightarrow> string list" where
  "cmdLine c =
     (case cmd_Op c of
        OpPing \<Rightarrow> [''ping'']
      | OpStats \<Rightarrow> [''stats'']
      | OpAuth \<Rightarrow> [''auth'', cmd_Token c]
      | OpGet \<Rightarrow> [''get'', cmd_Key c]
      | OpDelete \<Rightarrow> [''delete'', cmd_Key c]
      | OpIncr \<Rightarrow> [''incr'', cmd_Key c, formatUint (cmd_Delta c)]
      | OpMget \<Rightarrow> ''mget'' # cmd_Keys c
      | OpGets \<Rightarrow> ''gets'' # cmd_Keys c
      | OpSet \<Rightarrow> [''set'', cmd_Key c, formatUint (cmd_TTLSeconds c), formatNat (length (cmd_Value c))]
      | OpCas \<Rightarrow> [''cas'', cmd_Key c, formatUint (cmd_TTLSeconds c), formatUint (cmd_CAS c),
                   formatNat (length (cmd_Value c))])"

definition cmdBlock :: "Command \<Rightarrow> bytes" where
  "cmdBlock c = (if cmd_Op c = OpSet \<or> cmd_Op c = OpCas then cmd_Value c @ [CR, LF] else [])"

definition encodeCommand :: "Command \<Rightarrow> bytes" where
  "encodeCommand c = unwords (cmdLine c) @ [CR, LF] @ cmdBlock c"

text \<open>The fields that the operation uses are valid; the others are zero.\<close>

definition wfCommand :: "Command \<Rightarrow> bool" where
  "wfCommand c \<longleftrightarrow>
     (case cmd_Op c of
        OpPing \<Rightarrow> c = newCommand OpPing
      | OpStats \<Rightarrow> c = newCommand OpStats
      | OpAuth \<Rightarrow> wfKey (cmd_Token c) \<and> c = (newCommand OpAuth)\<lparr>cmd_Token := cmd_Token c\<rparr>
      | OpGet \<Rightarrow> wfKey (cmd_Key c) \<and> c = (newCommand OpGet)\<lparr>cmd_Key := cmd_Key c\<rparr>
      | OpDelete \<Rightarrow> wfKey (cmd_Key c) \<and> c = (newCommand OpDelete)\<lparr>cmd_Key := cmd_Key c\<rparr>
      | OpIncr \<Rightarrow> wfKey (cmd_Key c)
          \<and> c = (newCommand OpIncr)\<lparr>cmd_Key := cmd_Key c, cmd_Delta := cmd_Delta c\<rparr>
      | OpMget \<Rightarrow> cmd_Keys c \<noteq> [] \<and> list_all wfKey (cmd_Keys c)
          \<and> c = (newCommand OpMget)\<lparr>cmd_Keys := cmd_Keys c\<rparr>
      | OpGets \<Rightarrow> cmd_Keys c \<noteq> [] \<and> list_all wfKey (cmd_Keys c)
          \<and> c = (newCommand OpGets)\<lparr>cmd_Keys := cmd_Keys c\<rparr>
      | OpSet \<Rightarrow> wfKey (cmd_Key c) \<and> int (length (cmd_Value c)) + 2 \<le> maxAlloc
          \<and> c = (newCommand OpSet)\<lparr>cmd_Key := cmd_Key c, cmd_Value := cmd_Value c,
                  cmd_TTLSeconds := cmd_TTLSeconds c\<rparr>
      | OpCas \<Rightarrow> wfKey (cmd_Key c) \<and> int (length (cmd_Value c)) + 2 \<le> maxAlloc
          \<and> c = (newCommand OpCas)\<lparr>cmd_Key := cmd_Key c, cmd_Value := cmd_Value c,
                  cmd_TTLSeconds := cmd_TTLSeconds c, cmd_CAS := cmd_CAS c\<rparr>)"

lemma isWord_literals [simp]:
  "isWord ''ping''" "isWord ''auth''" "isWord ''get''" "isWord ''set''" "isWord ''delete''" "isWord ''incr''"
  "isWord ''stats''" "isWord ''mget''" "isWord ''gets''" "isWord ''cas''"
  by (rule isWord_ascii; simp)+

lemma toLower_literals [simp]:
  "toLower ''ping'' = Some ''ping''" "toLower ''auth'' = Some ''auth''" "toLower ''get'' = Some ''get''"
  "toLower ''set'' = Some ''set''" "toLower ''delete'' = Some ''delete''" "toLower ''incr'' = Some ''incr''"
  "toLower ''stats'' = Some ''stats''" "toLower ''mget'' = Some ''mget''" "toLower ''gets'' = Some ''gets''"
  "toLower ''cas'' = Some ''cas''"
  by code_simp+

lemma wfCommand_words: "wfCommand c \<Longrightarrow> list_all isWord (cmdLine c)"
  by (cases "cmd_Op c") (auto simp: wfCommand_def cmdLine_def wfKey_def list_all_iff)

lemma isWord_noLF: "isWord w \<Longrightarrow> LF \<notin> set w"
  using runes_all_bytes [of "\<lambda>r. r \<noteq> 10" w] by (fastforce simp: isWord_def list_all_iff isSpace_def)

lemma unwords_noLF: "list_all isWord ws \<Longrightarrow> LF \<notin> set (unwords ws)"
  by (induction ws rule: unwords.induct) (auto dest: isWord_noLF)

section \<open>Reading the encoding back\<close>

lemma readLineSlice_line:
  assumes "LF \<notin> set l" "length l < bufferSize" "in_data inp = l @ LF # rest"
  shows "readLineSlice inp = (Inr (l @ [LF]), inp\<lparr>in_data := rest\<rparr>)"
proof -
  have "\<forall>c\<in>set l. c \<noteq> LF" using assms(1) by blast
  then have "takeWhile (\<lambda>c. c \<noteq> LF) (in_data inp) = l" "dropWhile (\<lambda>c. c \<noteq> LF) (in_data inp) = LF # rest"
    by (simp_all add: assms(3) takeWhile_append2 dropWhile_append2)
  with assms(2) show ?thesis by (simp add: readLineSlice_def Let_def)
qed

lemma ReadCommand_line:
  assumes "list_all isWord ws" "ws \<noteq> []" "length (unwords ws) + 2 \<le> bufferSize"
    and "in_data inp = unwords ws @ [CR, LF] @ rest"
  shows "ReadCommand inp = parseFields ws (inp\<lparr>in_data := rest\<rparr>)"
proof -
  have "LF \<notin> set (unwords ws @ [CR])" using unwords_noLF [OF assms(1)] by simp
  then have "readLineSlice inp = (Inr (unwords ws @ [CR, LF]), inp\<lparr>in_data := rest\<rparr>)"
    using readLineSlice_line [of "unwords ws @ [CR]" inp rest] assms(3,4) by simp
  with fields_unwords [OF assms(1)] assms(2) show ?thesis
    by (simp add: ReadCommand_def Let_def nth_append)
qed

lemma readValue_block:
  assumes "int (length v) + 2 \<le> maxAlloc" "in_data inp = v @ [CR, LF] @ rest"
  shows "readValue (int (length v)) inp = (Inr v, inp\<lparr>in_data := rest\<rparr>)"
proof -
  have "go_int (int (length v) + 2) = int (length v) + 2"
    using assms(1) by (intro go_int_id) (auto simp: int64_range_def maxAlloc_def)
  then show ?thesis
    using assms by (simp add: readValue_def Let_def nat_add_distrib nth_append)
qed

lemma parse_encoded:
  assumes "wfCommand c" "in_data inp = cmdBlock c @ rest"
  shows "parseFields (cmdLine c) inp = (Inr c, inp\<lparr>in_data := rest\<rparr>)"
proof -
  have len: "int (length (cmd_Value c)) + 2 \<le> maxAlloc \<Longrightarrow> length (cmd_Value c) < 2 ^ 63"
    by (simp add: maxAlloc_def)
  have id: "inp\<lparr>in_data := in_data inp\<rparr> = inp" by simp
  show ?thesis
  proof (cases "cmd_Op c")
    case OpSet
    then have w: "wfKey (cmd_Key c)" "int (length (cmd_Value c)) + 2 \<le> maxAlloc"
      and c: "c = (newCommand OpSet)\<lparr>cmd_Key := cmd_Key c, cmd_Value := cmd_Value c,
                  cmd_TTLSeconds := cmd_TTLSeconds c\<rparr>" using assms(1) by (auto simp: wfCommand_def)
    then show ?thesis
      using OpSet assms(2) readValue_block [OF w(2)] parseByteCount_format [OF len [OF w(2)]]
      by (subst c) (simp add: parseFields_def cmdLine_def readSet_def optTTL_def cmdBlock_def wfKey_def)
  next
    case OpCas
    then have w: "wfKey (cmd_Key c)" "int (length (cmd_Value c)) + 2 \<le> maxAlloc"
      and c: "c = (newCommand OpCas)\<lparr>cmd_Key := cmd_Key c, cmd_Value := cmd_Value c,
                  cmd_TTLSeconds := cmd_TTLSeconds c, cmd_CAS := cmd_CAS c\<rparr>"
      using assms(1) by (auto simp: wfCommand_def)
    then show ?thesis
      using OpCas assms(2) readValue_block [OF w(2)] parseByteCount_format [OF len [OF w(2)]]
      by (subst c) (simp add: parseFields_def cmdLine_def readCas_def optTTL_def cmdBlock_def wfKey_def)
  qed (use assms id in \<open>auto simp: parseFields_def cmdLine_def parseLine_def cmdBlock_def wfCommand_def
        wfKey_def validToken_def keysFromFields_def list_all_iff\<close>)
qed

lemma ReadCommand_encoded:
  assumes "wfCommand c" "length (unwords (cmdLine c)) + 2 \<le> bufferSize" "in_data inp = encodeCommand c @ rest"
  shows "ReadCommand inp = (Inr c, inp\<lparr>in_data := rest\<rparr>)"
proof -
  have "cmdLine c \<noteq> []" by (simp add: cmdLine_def split: Op.split)
  then have "ReadCommand inp = parseFields (cmdLine c) (inp\<lparr>in_data := cmdBlock c @ rest\<rparr>)"
    using ReadCommand_line [OF wfCommand_words [OF assms(1)] _ assms(2)] assms(3) by (simp add: encodeCommand_def)
  also have "\<dots> = (Inr c, inp\<lparr>in_data := rest\<rparr>)" using parse_encoded [OF assms(1)] by simp
  finally show ?thesis .
qed

section \<open>What the parser returns\<close>

lemma readLineSlice_ok:
  assumes "readLineSlice inp = (Inr l, inp')"
  shows "l \<noteq> [] \<and> in_data inp = l @ in_data inp' \<and> in_end inp' = in_end inp \<and> length l \<le> bufferSize"
proof -
  let ?pre = "takeWhile (\<lambda>c. c \<noteq> LF) (in_data inp)" and ?post = "dropWhile (\<lambda>c. c \<noteq> LF) (in_data inp)"
  have l: "l = ?pre @ [LF]" "inp' = inp\<lparr>in_data := tl ?post\<rparr>" "?post \<noteq> []" "length ?pre < bufferSize"
    using assms by (auto simp: readLineSlice_def Let_def split: if_splits)
  then have "?post = LF # tl ?post" using hd_dropWhile [of "\<lambda>c. c \<noteq> LF" "in_data inp"] by (cases ?post) auto
  then have "in_data inp = ?pre @ LF # tl ?post" by (metis takeWhile_dropWhile_id)
  with l show ?thesis by simp
qed

lemma readValue_ok:
  assumes "readValue sz inp = (Inr v, inp')" "0 \<le> sz" "sz \<le> maxInt64"
  shows "in_data inp = v @ [CR, LF] @ in_data inp' \<and> in_end inp' = in_end inp
    \<and> sz = int (length v) \<and> sz + 2 \<le> maxAlloc"
proof -
  have n: "go_int (sz + 2) \<le> maxAlloc" "0 \<le> go_int (sz + 2)" "go_int (sz + 2) \<le> int (length (in_data inp))"
    using assms(1) by (auto simp: readValue_def Let_def split: if_splits)
  have small: "sz + 2 < 2 ^ 63"
    using n(2) go_int_over [of "sz + 2"] assms(2,3) by (auto simp: maxInt64_def not_less [symmetric])
  then have g: "go_int (sz + 2) = sz + 2" using assms(2) by (intro go_int_id) auto
  let ?d = "in_data inp" and ?m = "nat sz"
  have m: "nat (sz + 2) = ?m + 2" "nat (sz + 1) = ?m + 1" "sz = int ?m" "?m + 2 \<le> length ?d"
    using n(3) assms(2) g by auto
  then have v: "?d ! ?m = CR" "?d ! (?m + 1) = LF" "v = take ?m ?d" "inp' = inp\<lparr>in_data := drop (?m + 2) ?d\<rparr>"
    using assms(1) g by (auto simp: readValue_def Let_def split: if_splits)
  have "?d = take ?m ?d @ ?d ! ?m # ?d ! (?m + 1) # drop (?m + 2) ?d"
    using m(4) by (simp add: Cons_nth_drop_Suc)
  with v m n(1) g show ?thesis by simp
qed

lemma parseByteCount_ok: "parseByteCount t = Inr sz \<Longrightarrow> 0 \<le> sz \<and> sz \<le> maxInt64"
  by (auto simp: parseByteCount_def split: sum.splits if_splits)

lemma nth_word: "list_all isWord fs \<Longrightarrow> i < length fs \<Longrightarrow> isWord (fs ! i)"
  by (simp add: list_all_length)

lemma wfKey_nth: "list_all isWord fs \<Longrightarrow> i < length fs \<Longrightarrow> validKey (fs ! i) \<Longrightarrow> wfKey (fs ! i)"
  by (simp add: wfKey_def nth_word)

text \<open>\<open>ate inp inp' p\<close>: reading took the bytes \<open>p\<close> off the front of the input.\<close>

definition ate :: "input \<Rightarrow> input \<Rightarrow> bytes \<Rightarrow> bool" where
  "ate inp inp' p \<longleftrightarrow> in_data inp = p @ in_data inp' \<and> in_end inp' = in_end inp"

lemma readSet_ok:
  assumes "readSet fs inp = (Inr c, inp')" "list_all isWord fs"
  shows "wfCommand c \<and> (\<exists>p. ate inp inp' p)"
proof -
  obtain sz v ttl where "length fs = 3 \<or> length fs = 4" "validKey (fs ! 1)"
    and b: "0 \<le> sz \<and> sz \<le> maxInt64" and v: "readValue sz inp = (Inr v, inp')"
    and c: "c = (newCommand OpSet)\<lparr>cmd_Key := fs ! 1, cmd_Value := v, cmd_TTLSeconds := ttl\<rparr>"
    using assms(1) by (auto simp: readSet_def split: if_splits sum.splits prod.splits dest!: parseByteCount_ok)
  moreover from this have "wfKey (fs ! 1)" by (intro wfKey_nth [OF assms(2)]) auto
  ultimately show ?thesis
    using readValue_ok [OF v] by (auto simp: wfCommand_def newCommand_def ate_def)
qed

lemma readCas_ok:
  assumes "readCas fs inp = (Inr c, inp')" "list_all isWord fs"
  shows "wfCommand c \<and> (\<exists>p. ate inp inp' p)"
proof -
  obtain sz v ttl version where "length fs = 4 \<or> length fs = 5" "validKey (fs ! 1)"
    and b: "0 \<le> sz \<and> sz \<le> maxInt64" and v: "readValue sz inp = (Inr v, inp')"
    and c: "c = (newCommand OpCas)\<lparr>cmd_Key := fs ! 1, cmd_Value := v, cmd_TTLSeconds := ttl, cmd_CAS := version\<rparr>"
    using assms(1) by (auto simp: readCas_def split: if_splits sum.splits prod.splits dest!: parseByteCount_ok)
  moreover from this have "wfKey (fs ! 1)" by (intro wfKey_nth [OF assms(2)]) auto
  ultimately show ?thesis
    using readValue_ok [OF v] by (auto simp: wfCommand_def newCommand_def ate_def)
qed

lemma keysFromFields_ok: "keysFromFields fs = Inr ks \<Longrightarrow> list_all isWord fs \<Longrightarrow> ks \<noteq> [] \<and> list_all wfKey ks"
  by (auto simp: keysFromFields_def wfKey_def list_all_iff split: if_splits)

lemma parseLine_ok:
  assumes "parseLine name fs = Inr c" "list_all isWord fs"
  shows "wfCommand c"
proof -
  have k: "validKey (fs ! 1) \<Longrightarrow> length fs = n \<Longrightarrow> n = 2 \<or> n = 3 \<Longrightarrow> wfKey (fs ! 1)" for n
    by (intro wfKey_nth [OF assms(2)]) auto
  have t: "list_all isWord (tl fs)" using assms(2) by (cases fs) auto
  show ?thesis
    using assms(1) k
    by (auto simp: parseLine_def wfCommand_def newCommand_def validToken_def
        split: if_splits sum.splits dest!: keysFromFields_ok [OF _ t])
qed

lemma parseFields_ok:
  assumes "parseFields fs inp = (Inr c, inp')" "list_all isWord fs"
  shows "wfCommand c \<and> (\<exists>p. ate inp inp' p)"
  using assms(1) readSet_ok [OF _ assms(2)] readCas_ok [OF _ assms(2)] parseLine_ok [OF _ assms(2)]
  by (auto simp: parseFields_def ate_def split: option.splits if_splits)

lemma ReadCommand_ok:
  assumes "ReadCommand inp = (Inr c, inp')"
  shows "wfCommand c \<and> (\<exists>p. p \<noteq> [] \<and> ate inp inp' p)"
proof -
  obtain l inp1 where l: "readLineSlice inp = (Inr l, inp1)"
    and p: "parseFields (Fields (take (length l - 2) l)) inp1 = (Inr c, inp')"
    using assms by (auto simp: ReadCommand_def Let_def split: prod.splits sum.splits if_splits)
  have w: "list_all isWord (Fields (take (length l - 2) l))" by (simp add: list_all_iff fields_word)
  have "wfCommand c \<and> (\<exists>p. ate inp1 inp' p)" by (rule parseFields_ok [OF p w])
  moreover have "l \<noteq> []" "ate inp inp1 l" using readLineSlice_ok [OF l] by (auto simp: ate_def)
  ultimately show ?thesis by (auto simp: ate_def)
qed

text \<open>The number of keys of a command is bounded by the bytes it was read from.\<close>

lemma fieldsLoop_length: "length (fieldsLoop rs cur) \<le> length rs + (if cur = [] then 0 else 1)"
  by (induction rs cur rule: fieldsLoop.induct) (auto split: if_splits)

lemma runes_length: "length (runes s) \<le> length s"
proof -
  have "length rs \<le> length (concat (map snd rs))" if "\<forall>(r, b)\<in>set rs. b \<noteq> []" for rs :: "(rune \<times> string) list"
    using that by (induction rs) (auto simp: Suc_le_eq intro: le_less_trans simp flip: length_greater_0_conv)
  moreover have "\<forall>(r, b)\<in>set (runes s). b \<noteq> []" using runes_nonempty by blast
  ultimately have "length (runes s) \<le> length (concat (map snd (runes s)))" by blast
  then show ?thesis by (simp add: runes_bytes)
qed

lemma Fields_length: "length (Fields s) \<le> length s"
  using fieldsLoop_length [of "runes s" "[]"] runes_length [of s] by (simp add: Fields_def)

lemma parseFields_keys: "parseFields fs inp = (Inr c, inp') \<Longrightarrow> length (cmd_Keys c) \<le> length fs"
  by (auto simp: parseFields_def parseLine_def readSet_def readCas_def newCommand_def keysFromFields_def
      split: option.splits if_splits sum.splits prod.splits)

lemma ReadCommand_keys:
  assumes "ReadCommand inp = (Inr c, inp')"
  shows "length (cmd_Keys c) + length (in_data inp') < length (in_data inp)"
proof -
  obtain l inp1 where l: "readLineSlice inp = (Inr l, inp1)" "\<not> length l < 2"
    and p: "parseFields (Fields (take (length l - 2) l)) inp1 = (Inr c, inp')"
    using assms by (auto simp: ReadCommand_def Let_def split: prod.splits sum.splits if_splits)
  have w: "list_all isWord (Fields (take (length l - 2) l))" by (simp add: list_all_iff fields_word)
  obtain q where "ate inp1 inp' q" using parseFields_ok [OF p w] by blast
  moreover have "length (cmd_Keys c) \<le> length l - 2"
    using parseFields_keys [OF p] Fields_length [of "take (length l - 2) l"] by simp
  ultimately show ?thesis using readLineSlice_ok [OF l(1)] l(2) by (auto simp: ate_def)
qed

section \<open>Properties\<close>

abbreviation demo_set :: Command where
  "demo_set \<equiv> (newCommand OpSet)\<lparr>cmd_Key := ''k'', cmd_Value := ''a b'', cmd_TTLSeconds := 5\<rparr>"

lemma demo_set_wf: "wfCommand demo_set"
  by code_simp

text \<open>
  C11 (round trip).  Every well-formed command whose command line fits the read buffer has an
  encoding that the parser reads back, whatever follows it on the connection, and the parser leaves
  exactly what follows.  Values may hold any bytes.
\<close>

theorem ReadCommand_encode:
  assumes "wfCommand c" "length (unwords (cmdLine c)) + 2 \<le> bufferSize" "in_data inp = encodeCommand c @ rest"
  shows "ReadCommand inp = (Inr c, inp\<lparr>in_data := rest\<rparr>)"
  by (rule ReadCommand_encoded [OF assms])

theorem ReadCommand_encode_witness:
  "encodeCommand demo_set = ''set k 5 3'' @ [CR, LF] @ ''a b'' @ [CR, LF]
   \<and> ReadCommand \<lparr>in_data = encodeCommand demo_set @ ''ping'', in_end = EndEOF\<rparr>
     = (Inr demo_set, \<lparr>in_data = ''ping'', in_end = EndEOF\<rparr>)"
proof -
  have "length (unwords (cmdLine demo_set)) + 2 \<le> bufferSize" by code_simp
  from ReadCommand_encode [OF demo_set_wf this, of "\<lparr>in_data = encodeCommand demo_set @ ''ping'', in_end = EndEOF\<rparr>" "''ping''"]
  have "ReadCommand \<lparr>in_data = encodeCommand demo_set @ ''ping'', in_end = EndEOF\<rparr>
      = (Inr demo_set, \<lparr>in_data = ''ping'', in_end = EndEOF\<rparr>)" by simp
  moreover have "encodeCommand demo_set = ''set k 5 3'' @ [CR, LF] @ ''a b'' @ [CR, LF]" by code_simp
  ultimately show ?thesis by blast
qed

text \<open>
  C29 (type).  Whatever bytes arrive, a command that the parser returns is well formed: its keys
  are nonempty, at most 250 bytes, without spaces or control characters, its value is the
  announced number of bytes, the fields its operation does not use are zero.  It was read off a
  nonempty prefix of the input, so a loop that reads commands makes progress.
\<close>

theorem ReadCommand_wf:
  assumes "ReadCommand inp = (Inr c, inp')"
  shows "wfCommand c \<and> (\<exists>p. p \<noteq> [] \<and> in_data inp = p @ in_data inp') \<and> in_end inp' = in_end inp"
  using ReadCommand_ok [OF assms] by (auto simp: ate_def)

theorem ReadCommand_wf_witness:
  "wfCommand ((newCommand OpGet)\<lparr>cmd_Key := ''k''\<rparr>)"
proof -
  have "ReadCommand \<lparr>in_data = ''  GeT   k '' @ [CR, LF], in_end = EndEOF\<rparr>
      = (Inr ((newCommand OpGet)\<lparr>cmd_Key := ''k''\<rparr>), \<lparr>in_data = [], in_end = EndEOF\<rparr>)" by code_simp
  from ReadCommand_wf [OF this] show ?thesis ..
qed

text \<open>
  The loop of \<open>validKey\<close> over the runes of a key decides a property of its
  bytes, also for keys that are not valid UTF-8: 1 to 250 bytes, none of them a space, a control
  character or DEL.
\<close>

theorem validKey_bytes:
  "validKey k \<longleftrightarrow> k \<noteq> [] \<and> length k \<le> 250 \<and> (\<forall>c\<in>set k. 32 < rbyte c \<and> rbyte c \<noteq> 127)"
  by (simp add: validKey_runes MaxKeyBytes_def)

theorem validKey_bytes_witness: "validKey [CHR 0xFF] \<and> \<not> validKey ''a b''"
  by (simp add: validKey_bytes)

text \<open>
  C38 (error).  A \<open>set\<close> line that announces a value of more than \<open>2^48 - 2\<close> bytes makes the parser
  panic in \<open>make\<close> before it reads the value, because \<open>parseByteCount\<close> accepts every count up to
  the largest signed integer and the configured value limit is tested only later.
\<close>

theorem set_size_panics:
  assumes "wfKey k" "maxAlloc < int n + 2" "int n \<le> maxInt64"
    and "in_data inp = unwords [''set'', k, formatNat n] @ [CR, LF] @ rest"
  shows "fst (ReadCommand inp) = Inl Panic"
proof -
  have n: "n < 2 ^ 63" using assms(3) by (simp add: maxInt64_def)
  have "length (formatNat n) \<le> 19" using n by (intro formatNat_length_le) auto
  moreover have "length k \<le> 250" using assms(1) by (simp add: wfKey_def validKey_def MaxKeyBytes_def)
  ultimately have "length (unwords [''set'', k, formatNat n]) + 2 \<le> bufferSize" by (simp add: bufferSize_def)
  then have r: "ReadCommand inp = parseFields [''set'', k, formatNat n] (inp\<lparr>in_data := rest\<rparr>)"
    using assms(1,4) by (intro ReadCommand_line) (auto simp: wfKey_def)
  have "go_int (int n + 2) < 0 \<or> maxAlloc < go_int (int n + 2)"
  proof (cases "int n + 2 < 2 ^ 63")
    case True
    then show ?thesis using go_int_id [of "int n + 2"] assms(2) by simp
  next
    case False
    then show ?thesis using go_int_over [of "int n + 2"] assms(3) by (auto simp: maxInt64_def)
  qed
  then show ?thesis
    unfolding r using assms(1)
    by (simp add: parseFields_def readSet_def optTTL_def wfKey_def parseByteCount_format [OF n] readValue_def Let_def)
qed

lemma digitChar_literals:
  "digitChar 0 = CHR ''0''" "digitChar 2 = CHR ''2''" "digitChar 3 = CHR ''3''" "digitChar 4 = CHR ''4''"
  "digitChar 5 = CHR ''5''" "digitChar 6 = CHR ''6''" "digitChar 7 = CHR ''7''" "digitChar 8 = CHR ''8''"
  "digitChar 9 = CHR ''9''"
  by code_simp+

theorem set_size_panics_witness:
  "fst (ReadCommand \<lparr>in_data = ''set k 9223372036854775807'' @ [CR, LF], in_end = EndEOF\<rparr>) = Inl Panic"
proof -
  have "formatNat 9223372036854775807 = ''9223372036854775807''"
    by (simp add: formatNat.simps digitChar_literals)
  then have u: "unwords [''set'', ''k'', formatNat 9223372036854775807] = ''set k 9223372036854775807''" by simp
  have "wfKey ''k''" by code_simp
  then show ?thesis
    by (rule set_size_panics [where n = 9223372036854775807 and rest = "[]"])
      (simp_all add: maxAlloc_def maxInt64_def u del: unwords.simps)
qed

end
