(* ===== verification/Float64.thy ===== *)
theory Float64
  imports Complex_Main "HOL-Library.Log_Nat"
begin

text \<open>
  IEEE 754 double precision as far as the program uses it: \<open>fl\<close> rounds a rational number to the
  nearest double, ties to even, in the range of the normal numbers.  Every quantity that the
  program computes in floating point is zero or lies between \<open>2^-64\<close> and \<open>2^128\<close> in magnitude, far
  from the subnormals and from overflow.
\<close>

definition roundEven :: "rat \<Rightarrow> int" where
  "roundEven z =
     (let f = \<lfloor>z\<rfloor>; d = z - of_int f
      in if d < 1 / 2 then f else if 1 / 2 < d then f + 1 else if even f then f else f + 1)"

text \<open>The binary exponent: \<open>2^k \<le> x < 2^(k+1)\<close>.\<close>

definition exponent :: "rat \<Rightarrow> int" where
  "exponent x =
     (let (p, q) = quotient_of x; k = bitlen p - bitlen q
      in if (if 0 \<le> k then 2 ^ nat k * q \<le> p else q \<le> 2 ^ nat (- k) * p) then k else k - 1)"

definition pow2 :: "int \<Rightarrow> rat" where
  "pow2 k = (if 0 \<le> k then 2 ^ nat k else 1 / 2 ^ nat (- k))"

definition flpos :: "rat \<Rightarrow> rat" where
  "flpos x = (let e = exponent x - 52 in of_int (roundEven (x / pow2 e)) * pow2 e)"

definition fl :: "rat \<Rightarrow> rat" where
  "fl x = (if x = 0 then 0 else if 0 < x then flpos x else - flpos (- x))"

section \<open>Rounding to integers\<close>

lemma roundEven_bounds: "\<lfloor>z\<rfloor> \<le> roundEven z" "roundEven z \<le> \<lfloor>z\<rfloor> + 1"
  by (auto simp: roundEven_def Let_def)

lemma roundEven_of_int [simp]: "roundEven (of_int n) = n"
  by (simp add: roundEven_def)

lemma roundEven_mono:
  assumes "x \<le> y"
  shows "roundEven x \<le> roundEven y"
proof (cases "\<lfloor>x\<rfloor> = \<lfloor>y\<rfloor>")
  case True
  then show ?thesis using assms by (auto simp: roundEven_def Let_def)
next
  case False
  then have "\<lfloor>x\<rfloor> + 1 \<le> \<lfloor>y\<rfloor>" using floor_mono [OF assms] by simp
  then show ?thesis using roundEven_bounds(2) [of x] roundEven_bounds(1) [of y] by simp
qed

section \<open>Powers of two\<close>

lemma pow2_pos [simp]: "0 < pow2 k"
  by (simp add: pow2_def)

lemma pow2_nonzero [simp]: "pow2 k \<noteq> 0"
  by (metis less_irrefl pow2_pos)

lemma pow2_powi: "pow2 k = 2 powi k"
  by (simp add: pow2_def power_int_def field_simps)

lemma pow2_add: "pow2 (a + b) = pow2 a * pow2 b"
  unfolding pow2_powi by (rule power_int_add) simp

lemma pow2_mono: "a \<le> b \<Longrightarrow> pow2 a \<le> pow2 b"
  unfolding pow2_powi by (rule power_int_increasing) auto

lemma pow2_nat [simp]: "pow2 (int n) = 2 ^ n"
  by (simp add: pow2_def)

section \<open>The exponent\<close>

lemma bitlen_pow2:
  assumes "0 < n"
  shows "pow2 (bitlen n - 1) \<le> rat_of_int n" "rat_of_int n < pow2 (bitlen n)"
proof -
  have b: "2 ^ nat (bitlen n - 1) \<le> n" "n < 2 ^ nat (bitlen n)" "0 < bitlen n"
    using bitlen_bounds [OF assms] assms bitlen_nonneg [of n] by (auto simp: less_le)
  have "pow2 (bitlen n - 1) = rat_of_int (2 ^ nat (bitlen n - 1))" using b(3) by (simp add: pow2_def)
  also have "\<dots> \<le> rat_of_int n" using b(1) by (simp only: of_int_le_iff)
  finally show "pow2 (bitlen n - 1) \<le> rat_of_int n" .
  have "rat_of_int n < rat_of_int (2 ^ nat (bitlen n))" using b(2) by (simp only: of_int_less_iff)
  also have "\<dots> = pow2 (bitlen n)" using b(3) by (simp add: pow2_def)
  finally show "rat_of_int n < pow2 (bitlen n)" .
qed

lemma exponent_test:
  assumes "0 < q"
  shows "(if 0 \<le> k then 2 ^ nat k * q \<le> p else q \<le> 2 ^ nat (- k) * p)
    \<longleftrightarrow> pow2 k * rat_of_int q \<le> rat_of_int p"
proof (cases "0 \<le> k")
  case True
  then have "pow2 k * rat_of_int q = rat_of_int (2 ^ nat k * q)" by (simp add: pow2_def)
  with True show ?thesis by (simp only: of_int_le_iff if_True)
next
  case False
  then have "pow2 k * rat_of_int q \<le> rat_of_int p \<longleftrightarrow> rat_of_int q \<le> rat_of_int (2 ^ nat (- k) * p)"
    by (simp add: pow2_def field_simps)
  with False show ?thesis by (simp only: of_int_le_iff if_False)
qed

lemma exponent_bounds:
  assumes "0 < x"
  shows "pow2 (exponent x) \<le> x" "x < pow2 (exponent x + 1)"
proof -
  obtain p q where pq: "quotient_of x = (p, q)" by fastforce
  let ?k = "bitlen p - bitlen q"
  have x: "x = rat_of_int p / rat_of_int q" and q: "0 < q"
    using quotient_of_div [OF pq] quotient_of_denom_pos [OF pq] by auto
  have p: "0 < p" using assms x q by (simp add: zero_less_divide_iff)
  have rq: "0 < rat_of_int q" using q by simp
  have "rat_of_int p < pow2 (bitlen p)" by (rule bitlen_pow2(2) [OF p])
  also have "\<dots> = pow2 (?k + 1) * pow2 (bitlen q - 1)" by (simp flip: pow2_add)
  also have "\<dots> \<le> pow2 (?k + 1) * rat_of_int q"
    using bitlen_pow2(1) [OF q] by (intro mult_left_mono) (auto intro: less_imp_le)
  finally have hi: "x < pow2 (?k + 1)" using rq by (simp add: x divide_less_eq)
  have "pow2 (?k - 1) * rat_of_int q \<le> pow2 (?k - 1) * pow2 (bitlen q)"
    using bitlen_pow2(2) [OF q] by (intro mult_left_mono) (auto intro: less_imp_le)
  also have "\<dots> = pow2 (bitlen p - 1)" by (simp flip: pow2_add)
  also have "\<dots> \<le> rat_of_int p" by (rule bitlen_pow2(1) [OF p])
  finally have lo: "pow2 (?k - 1) \<le> x" using rq by (simp add: x le_divide_eq)
  have e: "exponent x = (if pow2 ?k \<le> x then ?k else ?k - 1)"
  proof -
    have "pow2 ?k \<le> x \<longleftrightarrow> pow2 ?k * rat_of_int q \<le> rat_of_int p" using rq by (simp add: x le_divide_eq)
    then show ?thesis unfolding exponent_def pq Let_def prod.case exponent_test [OF q] by simp
  qed
  show "pow2 (exponent x) \<le> x" "x < pow2 (exponent x + 1)"
    using hi lo by (auto simp: e not_le)
qed

lemma exponent_mono:
  assumes "0 < x" "x \<le> y"
  shows "exponent x \<le> exponent y"
proof (rule ccontr)
  assume "\<not> exponent x \<le> exponent y"
  then have "pow2 (exponent y + 1) \<le> pow2 (exponent x)" by (intro pow2_mono) simp
  with exponent_bounds [OF assms(1)] exponent_bounds [of y] assms show False by simp
qed

section \<open>Rounding to doubles\<close>

text \<open>The rounded number stays in the binade of its argument, upper end included.\<close>

lemma flpos_binade:
  assumes "0 < x"
  shows "pow2 (exponent x) \<le> flpos x" "flpos x \<le> pow2 (exponent x + 1)"
proof -
  let ?e = "exponent x - 52"
  have e: "of_int (2 ^ 52) = pow2 (exponent x) / pow2 ?e" "of_int (2 ^ 53) = pow2 (exponent x + 1) / pow2 ?e"
    using pow2_add [of ?e 52] pow2_add [of ?e 53] pow2_nat [of 52] pow2_nat [of 53]
    by (simp_all add: field_simps)
  have "rat_of_int (2 ^ 52) \<le> x / pow2 ?e" "x / pow2 ?e \<le> rat_of_int (2 ^ 53)"
    unfolding e using exponent_bounds [OF assms] by (intro divide_right_mono; simp add: less_imp_le)+
  then have r: "2 ^ 52 \<le> roundEven (x / pow2 ?e)" "roundEven (x / pow2 ?e) \<le> 2 ^ 53"
    using roundEven_mono [of "rat_of_int (2 ^ 52)"] roundEven_mono [of _ "rat_of_int (2 ^ 53)"]
    by (metis roundEven_of_int)+
  have "pow2 (exponent x) = rat_of_int (2 ^ 52) * pow2 ?e"
    using pow2_add [of ?e 52] pow2_nat [of 52] by simp
  also have "\<dots> \<le> flpos x"
    using r(1) unfolding flpos_def Let_def by (intro mult_right_mono) (simp_all only: of_int_le_iff pow2_pos less_imp_le)
  finally show "pow2 (exponent x) \<le> flpos x" .
  have "flpos x \<le> rat_of_int (2 ^ 53) * pow2 ?e"
    using r(2) unfolding flpos_def Let_def by (intro mult_right_mono) (simp_all only: of_int_le_iff pow2_pos less_imp_le)
  also have "\<dots> = pow2 (exponent x + 1)"
    using pow2_add [of ?e 53] pow2_nat [of 53] by (simp add: add.commute)
  finally show "flpos x \<le> pow2 (exponent x + 1)" .
qed

lemma flpos_pos: "0 < x \<Longrightarrow> 0 < flpos x"
  using flpos_binade(1) [of x] pow2_pos [of "exponent x"] by linarith

lemma flpos_mono:
  assumes "0 < x" "x \<le> y"
  shows "flpos x \<le> flpos y"
proof (cases "exponent x = exponent y")
  case True
  have "roundEven (x / pow2 (exponent x - 52)) \<le> roundEven (y / pow2 (exponent x - 52))"
    using assms(2) by (intro roundEven_mono divide_right_mono) (auto intro: less_imp_le)
  with True show ?thesis by (simp add: flpos_def Let_def mult_right_mono less_imp_le)
next
  case False
  then have "exponent x + 1 \<le> exponent y" using exponent_mono [OF assms] by simp
  then have "pow2 (exponent x + 1) \<le> pow2 (exponent y)" by (rule pow2_mono)
  with flpos_binade(2) [OF assms(1)] flpos_binade(1) [of y] assms show ?thesis by simp
qed

lemma fl_mono: "x \<le> y \<Longrightarrow> fl x \<le> fl y"
  using flpos_mono [of x y] flpos_mono [of "- y" "- x"] flpos_pos [of y] flpos_pos [of "- x"]
  by (auto simp: fl_def)

lemma fl_minus: "fl (- x) = - fl x"
  by (auto simp: fl_def)

lemma flpos_nat:
  assumes "0 < n" "n \<le> 2 ^ 53"
  shows "flpos (rat_of_int n) = rat_of_int n"
proof -
  let ?e = "exponent (rat_of_int n) - 52"
  have "pow2 (exponent (rat_of_int n)) \<le> rat_of_int (2 ^ 53)"
    using exponent_bounds(1) [of "rat_of_int n"] assms by (metis of_int_0_less_iff of_int_le_iff order_trans)
  also have "\<dots> = pow2 53" using pow2_nat [of 53] by simp
  finally have le: "pow2 (exponent (rat_of_int n)) \<le> pow2 53" .
  show ?thesis
  proof (cases "?e \<le> 0")
    case True
    then have "rat_of_int n / pow2 ?e = rat_of_int (n * 2 ^ nat (- ?e))" by (auto simp: pow2_def)
    then show ?thesis
      unfolding flpos_def Let_def by (simp only: roundEven_of_int) (use True in \<open>simp add: pow2_def\<close>)
  next
    case False
    have "\<not> 54 \<le> exponent (rat_of_int n)"
    proof
      assume "54 \<le> exponent (rat_of_int n)"
      then have "pow2 54 \<le> pow2 53" using pow2_mono le order_trans by blast
      then show False using pow2_nat [of 53] pow2_nat [of 54] by simp
    qed
    with False have e: "exponent (rat_of_int n) = 53" by simp
    then have "pow2 53 \<le> rat_of_int n" using exponent_bounds(1) [of "rat_of_int n"] assms(1) by simp
    then have "2 ^ 53 \<le> n" using pow2_nat [of 53] by simp
    then have "n = 2 ^ 53" using assms(2) by simp
    then have "rat_of_int n / pow2 ?e = rat_of_int (2 ^ 52)" using e pow2_nat [of 1] by simp
    then show ?thesis
      unfolding flpos_def Let_def
      by (simp only: roundEven_of_int) (use e \<open>n = 2 ^ 53\<close> pow2_nat [of 1] in simp)
  qed
qed

lemma fl_int: "\<bar>n\<bar> \<le> 2 ^ 53 \<Longrightarrow> fl (rat_of_int n) = rat_of_int n"
  using flpos_nat [of n] flpos_nat [of "- n"] by (auto simp: fl_def)

end
