(* ===== verification/Server.thy ===== *)
theory Server
  imports Store Protocol_Props Float64
begin

unbundle bit_operations_syntax

text \<open>
  The connection handler of \<open>internal/server/server.go\<close>: the server's counters, the execution of a
  command against the store, the authentication gate, and the two command loops \<open>serveConn\<close> and
  \<open>Serve\<close>.  A connection's output is a \<open>bufio.Writer\<close> over a peer that may stop accepting bytes;
  every write returns whether it failed, and the handlers return early where the code does.

  The clock and the map iteration order are parameters, one \<open>env\<close> per command; the \<open>i\<close>-th clock
  reading inside a command is \<open>env_clock i\<close>, and \<open>env_start\<close> is the reading before it is read.
\<close>

section \<open>Buffered output\<close>

record writer =
  w_buf :: bytes
  w_failed :: bool
  w_sent :: bytes
  w_room :: "nat option"

definition newWriter :: "nat option \<Rightarrow> writer" where
  "newWriter room = \<lparr>w_buf = [], w_failed = False, w_sent = [], w_room = room\<rparr>"

text \<open>The peer accepts \<open>w_room\<close> more bytes (all, if \<open>None\<close>); then writes fail.\<close>

definition connWrite :: "bytes \<Rightarrow> writer \<Rightarrow> writer" where
  "connWrite p w =
     (case w_room w of
        None \<Rightarrow> w\<lparr>w_sent := w_sent w @ p\<rparr>
      | Some m \<Rightarrow>
          if length p \<le> m then w\<lparr>w_sent := w_sent w @ p, w_room := Some (m - length p)\<rparr>
          else w\<lparr>w_sent := w_sent w @ take m p, w_room := Some 0, w_failed := True\<rparr>)"

definition Flush :: "writer \<Rightarrow> bool \<times> writer" where
  "Flush w =
     (if w_failed w then (True, w)
      else if w_buf w = [] then (False, w)
      else let w = connWrite (w_buf w) w
           in if w_failed w then (True, w) else (False, w\<lparr>w_buf := []\<rparr>))"

text \<open>With nothing buffered, a write larger than the buffer goes straight to the connection.\<close>

definition writeFresh :: "bytes \<Rightarrow> writer \<Rightarrow> bool \<times> writer" where
  "writeFresh p w =
     (if length p \<le> bufferSize then (False, w\<lparr>w_buf := p\<rparr>)
      else let w = connWrite p w in (w_failed w, w))"

definition writeBytes :: "bytes \<Rightarrow> writer \<Rightarrow> bool \<times> writer" where
  "writeBytes p w =
     (if w_failed w then (True, w)
      else if w_buf w = [] then writeFresh p w
      else if length (w_buf w) + length p \<le> bufferSize then (False, w\<lparr>w_buf := w_buf w @ p\<rparr>)
      else let n = bufferSize - length (w_buf w);
               (err, w) = Flush (w\<lparr>w_buf := w_buf w @ take n p\<rparr>)
           in if err then (True, w) else writeFresh (drop n p) w)"

definition writeLine :: "string \<Rightarrow> writer \<Rightarrow> bool \<times> writer" where
  "writeLine line w =
     (let (err, w) = writeBytes line w in if err then (True, w) else writeBytes [CR, LF] w)"

section \<open>Server state\<close>

record Server =
  srv_store :: Store
  srv_authToken :: string
  srv_idleTimeout :: duration
  srv_maxConns :: "nat option"
  srv_startedAt :: time
  srv_connectionsOpened :: uint64
  srv_connectionsActive :: int
  srv_connectionsRejected :: uint64
  srv_authFailures :: uint64
  srv_clientErrors :: uint64
  srv_serverErrors :: uint64
  srv_cmdGet :: uint64
  srv_cmdSet :: uint64
  srv_cmdDelete :: uint64
  srv_cmdIncr :: uint64
  srv_cmdMget :: uint64
  srv_cmdGets :: uint64
  srv_cmdCas :: uint64
  srv_cmdStats :: uint64
  srv_cmdAuth :: uint64
  srv_cmdPing :: uint64

definition Server_New :: "Store \<Rightarrow> time \<Rightarrow> Server" where
  "Server_New kv now =
     \<lparr>srv_store = kv, srv_authToken = [], srv_idleTimeout = 0, srv_maxConns = None, srv_startedAt = now,
      srv_connectionsOpened = 0, srv_connectionsActive = 0, srv_connectionsRejected = 0,
      srv_authFailures = 0, srv_clientErrors = 0, srv_serverErrors = 0, srv_cmdGet = 0, srv_cmdSet = 0,
      srv_cmdDelete = 0, srv_cmdIncr = 0, srv_cmdMget = 0, srv_cmdGets = 0, srv_cmdCas = 0,
      srv_cmdStats = 0, srv_cmdAuth = 0, srv_cmdPing = 0\<rparr>"

definition WithAuthToken :: "string \<Rightarrow> Server \<Rightarrow> Server" where
  "WithAuthToken token s = s\<lparr>srv_authToken := token\<rparr>"

definition WithIdleTimeout :: "duration \<Rightarrow> Server \<Rightarrow> Server" where
  "WithIdleTimeout d s = s\<lparr>srv_idleTimeout := d\<rparr>"

definition WithMaxConnections :: "int \<Rightarrow> Server \<Rightarrow> Server" where
  "WithMaxConnections n s = s\<lparr>srv_maxConns := (if 0 < n then Some (nat n) else None)\<rparr>"

record ServerStats =
  sv_StartedAt :: time
  sv_Uptime :: duration
  sv_ConnectionsOpened :: uint64
  sv_ConnectionsActive :: int
  sv_ConnectionsRejected :: uint64
  sv_AuthFailures :: uint64
  sv_ClientErrors :: uint64
  sv_ServerErrors :: uint64
  sv_CmdGet :: uint64
  sv_CmdSet :: uint64
  sv_CmdDelete :: uint64
  sv_CmdIncr :: uint64
  sv_CmdMget :: uint64
  sv_CmdGets :: uint64
  sv_CmdCas :: uint64
  sv_CmdStats :: uint64
  sv_CmdAuth :: uint64
  sv_CmdPing :: uint64
  sv_Store :: Stats

text \<open>\<open>Time.Sub\<close> saturates at the ends of the duration range.\<close>

definition timeSub :: "time \<Rightarrow> time \<Rightarrow> duration" where
  "timeSub t u = max (- (2 ^ 63)) (min (t - u) maxInt64)"

definition Server_Stats :: "time \<Rightarrow> Server \<Rightarrow> ServerStats" where
  "Server_Stats now s =
     \<lparr>sv_StartedAt = srv_startedAt s, sv_Uptime = timeSub now (srv_startedAt s),
      sv_ConnectionsOpened = srv_connectionsOpened s, sv_ConnectionsActive = srv_connectionsActive s,
      sv_ConnectionsRejected = srv_connectionsRejected s, sv_AuthFailures = srv_authFailures s,
      sv_ClientErrors = srv_clientErrors s, sv_ServerErrors = srv_serverErrors s,
      sv_CmdGet = srv_cmdGet s, sv_CmdSet = srv_cmdSet s, sv_CmdDelete = srv_cmdDelete s,
      sv_CmdIncr = srv_cmdIncr s, sv_CmdMget = srv_cmdMget s, sv_CmdGets = srv_cmdGets s,
      sv_CmdCas = srv_cmdCas s, sv_CmdStats = srv_cmdStats s, sv_CmdAuth = srv_cmdAuth s,
      sv_CmdPing = srv_cmdPing s, sv_Store = Store_Stats (srv_store s)\<rparr>"

definition countCommand :: "Op \<Rightarrow> Server \<Rightarrow> Server" where
  "countCommand op s =
     (case op of
        OpGet \<Rightarrow> s\<lparr>srv_cmdGet := srv_cmdGet s + 1\<rparr>
      | OpSet \<Rightarrow> s\<lparr>srv_cmdSet := srv_cmdSet s + 1\<rparr>
      | OpDelete \<Rightarrow> s\<lparr>srv_cmdDelete := srv_cmdDelete s + 1\<rparr>
      | OpIncr \<Rightarrow> s\<lparr>srv_cmdIncr := srv_cmdIncr s + 1\<rparr>
      | OpMget \<Rightarrow> s\<lparr>srv_cmdMget := srv_cmdMget s + 1\<rparr>
      | OpGets \<Rightarrow> s\<lparr>srv_cmdGets := srv_cmdGets s + 1\<rparr>
      | OpCas \<Rightarrow> s\<lparr>srv_cmdCas := srv_cmdCas s + 1\<rparr>
      | OpStats \<Rightarrow> s\<lparr>srv_cmdStats := srv_cmdStats s + 1\<rparr>
      | OpPing \<Rightarrow> s\<lparr>srv_cmdPing := srv_cmdPing s + 1\<rparr>
      | OpAuth \<Rightarrow> s)"

section \<open>STATS\<close>

text \<open>
  \<open>int64(d.Seconds())\<close>: whole seconds and the fraction are added as doubles, then truncated.
\<close>

definition durationSeconds :: "duration \<Rightarrow> rat" where
  "durationSeconds d =
     (let sec = sgn d * (\<bar>d\<bar> div 10 ^ 9); nsec = sgn d * (\<bar>d\<bar> mod 10 ^ 9)
      in fl (fl (of_int sec) + fl (of_int nsec / 10 ^ 9)))"

definition truncate_rat :: "rat \<Rightarrow> int" where
  "truncate_rat x = (if 0 \<le> x then \<lfloor>x\<rfloor> else \<lceil>x\<rceil>)"

definition uptimeSeconds :: "duration \<Rightarrow> int" where
  "uptimeSeconds d = truncate_rat (durationSeconds d)"

definition statLines :: "ServerStats \<Rightarrow> (string \<times> string) list" where
  "statLines st =
     [(''uptime_seconds'', formatInt (uptimeSeconds (sv_Uptime st))),
      (''connections_opened'', formatUint (sv_ConnectionsOpened st)),
      (''connections_active'', formatInt (sv_ConnectionsActive st)),
      (''connections_rejected'', formatUint (sv_ConnectionsRejected st)),
      (''auth_failures'', formatUint (sv_AuthFailures st)),
      (''client_errors'', formatUint (sv_ClientErrors st)),
      (''server_errors'', formatUint (sv_ServerErrors st)),
      (''cmd_get'', formatUint (sv_CmdGet st)),
      (''cmd_set'', formatUint (sv_CmdSet st)),
      (''cmd_delete'', formatUint (sv_CmdDelete st)),
      (''cmd_incr'', formatUint (sv_CmdIncr st)),
      (''cmd_mget'', formatUint (sv_CmdMget st)),
      (''cmd_gets'', formatUint (sv_CmdGets st)),
      (''cmd_cas'', formatUint (sv_CmdCas st)),
      (''cmd_stats'', formatUint (sv_CmdStats st)),
      (''cmd_auth'', formatUint (sv_CmdAuth st)),
      (''cmd_ping'', formatUint (sv_CmdPing st)),
      (''items'', formatInt (ss_Items (sv_Store st))),
      (''memory_bytes'', formatInt (ss_MemoryBytes (sv_Store st))),
      (''max_memory_bytes'', formatInt (ss_MaxMemoryBytes (sv_Store st))),
      (''evictions'', formatUint (ss_Evictions (sv_Store st))),
      (''expirations'', formatUint (ss_Expirations (sv_Store st))),
      (''shards'', formatInt (ss_NumShards (sv_Store st)))]"

fun writeStatLines :: "(string \<times> string) list \<Rightarrow> writer \<Rightarrow> bool \<times> writer" where
  "writeStatLines [] w = (False, w)"
| "writeStatLines ((name, v) # ls) w =
     (let (err, w) = writeLine (''STAT '' @ name @ '' '' @ v) w
      in if err then (True, w) else writeStatLines ls w)"

definition writeStats :: "ServerStats \<Rightarrow> writer \<Rightarrow> bool \<times> writer" where
  "writeStats st w =
     (let (err, w) = writeStatLines (statLines st) w in if err then (True, w) else writeLine ''END'' w)"

section \<open>Executing a command\<close>

record env =
  env_start :: time
  env_ord :: range_order
  env_clock :: "nat \<Rightarrow> time"

text \<open>One \<open>VALUE\<close> block of a reply; \<open>gets\<close> adds the token.\<close>

definition writeItem :: "bool \<Rightarrow> key \<Rightarrow> Item \<Rightarrow> writer \<Rightarrow> bool \<times> writer" where
  "writeItem withCAS key item w =
     (let (err, w) = writeLine (''VALUE '' @ key @ '' '' @ formatNat (length (it_Value item))
                        @ (if withCAS then '' '' @ formatUint (it_CAS item) else [])) w
      in if err then (True, w)
         else let (err, w) = writeBytes (it_Value item) w
              in if err then (True, w) else writeBytes [CR, LF] w)"

fun mgetLoop :: "bool \<Rightarrow> (nat \<Rightarrow> time) \<Rightarrow> nat \<Rightarrow> key list \<Rightarrow> Store \<Rightarrow> writer \<Rightarrow> bool \<times> Store \<times> writer" where
  "mgetLoop withCAS clock i [] kv w = (let (err, w) = writeLine ''END'' w in (err, kv, w))"
| "mgetLoop withCAS clock i (key # keys) kv w =
     (let (r, kv) = Store_Get (clock i) key kv
      in case r of
           None \<Rightarrow> mgetLoop withCAS clock (Suc i) keys kv w
         | Some item \<Rightarrow>
             let (err, w) = writeItem withCAS key item w
             in if err then (True, kv, w) else mgetLoop withCAS clock (Suc i) keys kv w)"

text \<open>\<open>math.MaxInt64 / int64(time.Second)\<close> and \<open>time.Duration(n) * time.Second\<close>.\<close>

definition maxTTLSeconds :: uint64 where
  "maxTTLSeconds = 9223372036"

definition ttlDuration :: "uint64 \<Rightarrow> duration" where
  "ttlDuration n = go_int (go_int (int (unat n)) * 10 ^ 9)"

text \<open>The reply to a store error; \<open>None\<close> where the handler returns the error instead.\<close>

definition setReply :: "store_error + unit \<Rightarrow> string option" where
  "setReply r =
     (case r of
        Inr _ \<Rightarrow> Some ''STORED''
      | Inl ErrValueTooLarge \<Rightarrow> Some ''SERVER_ERROR value too large''
      | Inl ErrMemoryLimitExceeded \<Rightarrow> Some ''SERVER_ERROR memory limit exceeded''
      | Inl _ \<Rightarrow> None)"

definition casReply :: "store_error + unit \<Rightarrow> string option" where
  "casReply r =
     (case r of
        Inr _ \<Rightarrow> Some ''STORED''
      | Inl ErrCasMismatch \<Rightarrow> Some ''EXISTS''
      | Inl ErrNotFound \<Rightarrow> Some ''NOT_FOUND''
      | Inl ErrValueTooLarge \<Rightarrow> Some ''SERVER_ERROR value too large''
      | Inl ErrMemoryLimitExceeded \<Rightarrow> Some ''SERVER_ERROR memory limit exceeded''
      | Inl _ \<Rightarrow> None)"

definition incrReply :: "store_error + uint64 \<Rightarrow> string option" where
  "incrReply r =
     (case r of
        Inr v \<Rightarrow> Some (''VALUE '' @ formatUint v)
      | Inl ErrNotFound \<Rightarrow> Some ''NOT_FOUND''
      | Inl ErrNotInteger \<Rightarrow> Some ''CLIENT_ERROR value is not an unsigned integer''
      | Inl ErrOverflow \<Rightarrow> Some ''CLIENT_ERROR increment would overflow uint64''
      | Inl ErrValueTooLarge \<Rightarrow> Some ''SERVER_ERROR value too large''
      | Inl ErrMemoryLimitExceeded \<Rightarrow> Some ''SERVER_ERROR memory limit exceeded''
      | Inl _ \<Rightarrow> None)"

definition writeReply :: "string option \<Rightarrow> writer \<Rightarrow> bool \<times> writer" where
  "writeReply r w = (case r of None \<Rightarrow> (True, w) | Some line \<Rightarrow> writeLine line w)"

definition execute :: "env \<Rightarrow> Command \<Rightarrow> Server \<Rightarrow> writer \<Rightarrow> bool \<times> Server \<times> writer" where
  "execute e c s w =
     (let kv = srv_store s; now = env_clock e 0
      in case cmd_Op c of
           OpPing \<Rightarrow> (let (err, w) = writeLine ''PONG'' w in (err, s, w))
         | OpStats \<Rightarrow> (let (err, w) = writeStats (Server_Stats now s) w in (err, s, w))
         | OpGet \<Rightarrow>
             (let (r, kv) = Store_Get now (cmd_Key c) kv; s = s\<lparr>srv_store := kv\<rparr>
              in case r of
                   None \<Rightarrow> (let (err, w) = writeLine ''END'' w in (err, s, w))
                 | Some item \<Rightarrow>
                     (let (err, w) = writeItem False (cmd_Key c) item w
                      in if err then (True, s, w)
                         else let (err, w) = writeLine ''END'' w in (err, s, w)))
         | OpSet \<Rightarrow>
             if maxTTLSeconds < cmd_TTLSeconds c
             then let (err, w) = writeLine ''CLIENT_ERROR TTL is too large'' w in (err, s, w)
             else let (r, kv) = Store_Set (env_ord e) now (cmd_Key c) (cmd_Value c)
                                  (ttlDuration (cmd_TTLSeconds c)) kv;
                      (err, w) = writeReply (setReply r) w
                  in (err, s\<lparr>srv_store := kv\<rparr>, w)
         | OpDelete \<Rightarrow>
             (let (found, kv) = Store_Delete now (cmd_Key c) kv;
                  (err, w) = writeLine (if found then ''DELETED'' else ''NOT_FOUND'') w
              in (err, s\<lparr>srv_store := kv\<rparr>, w))
         | OpMget \<Rightarrow>
             (let (err, kv, w) = mgetLoop False (env_clock e) 0 (cmd_Keys c) kv w
              in (err, s\<lparr>srv_store := kv\<rparr>, w))
         | OpGets \<Rightarrow>
             (let (err, kv, w) = mgetLoop True (env_clock e) 0 (cmd_Keys c) kv w
              in (err, s\<lparr>srv_store := kv\<rparr>, w))
         | OpCas \<Rightarrow>
             if maxTTLSeconds < cmd_TTLSeconds c
             then let (err, w) = writeLine ''CLIENT_ERROR TTL is too large'' w in (err, s, w)
             else let (r, kv) = Store_Cas (env_ord e) now (cmd_Key c) (cmd_Value c)
                                  (ttlDuration (cmd_TTLSeconds c)) (cmd_CAS c) kv;
                      (err, w) = writeReply (casReply r) w
                  in (err, s\<lparr>srv_store := kv\<rparr>, w)
         | OpIncr \<Rightarrow>
             (let (r, kv) = Store_Incr (env_ord e) now (cmd_Key c) (cmd_Delta c) kv;
                  (err, w) = writeReply (incrReply r) w
              in (err, s\<lparr>srv_store := kv\<rparr>, w))
         | OpAuth \<Rightarrow> (let (err, w) = writeLine ''CLIENT_ERROR unknown command'' w in (err, s, w)))"

section \<open>Authentication\<close>

definition constantTimeEqual :: "string \<Rightarrow> string \<Rightarrow> bool" where
  "constantTimeEqual got want \<longleftrightarrow> length got = length want
     \<and> foldl (\<lambda>v (a, b). v OR (of_nat (byte a) XOR of_nat (byte b))) (0 :: 8 word) (zip got want) = 0"

text \<open>The result \<open>(ok, terminal)\<close> of the gate on an unauthenticated connection.\<close>

definition handleAuthGate :: "Command \<Rightarrow> Server \<Rightarrow> writer \<Rightarrow> bool \<times> bool \<times> Server \<times> writer" where
  "handleAuthGate c s w =
     (if cmd_Op c \<noteq> OpAuth then (False, True, s, snd (writeLine ''CLIENT_ERROR auth required'' w))
      else let s = s\<lparr>srv_cmdAuth := srv_cmdAuth s + 1\<rparr>
           in if \<not> constantTimeEqual (cmd_Token c) (srv_authToken s)
              then (False, True, s\<lparr>srv_authFailures := srv_authFailures s + 1\<rparr>,
                    snd (writeLine ''CLIENT_ERROR auth failed'' w))
              else (True, False, s, snd (writeLine ''AUTHENTICATED'' w)))"

section \<open>The command loops\<close>

text \<open>What the loop does after a command: go on, authenticated or not, or return, with an error or not.\<close>

datatype verdict = Continue bool | Return bool

definition flushThen :: "verdict \<Rightarrow> Server \<Rightarrow> writer \<Rightarrow> verdict \<times> Server \<times> writer" where
  "flushThen v s w = (let (err, w) = Flush w in if err then (Return True, s, w) else (v, s, w))"

definition flushReturn :: "Server \<Rightarrow> writer \<Rightarrow> verdict \<times> Server \<times> writer" where
  "flushReturn s w = (let (err, w) = Flush w in (Return err, s, w))"

text \<open>The body of the loop after a command has been read.\<close>

definition serveCommand :: "env \<Rightarrow> bool \<Rightarrow> Command \<Rightarrow> Server \<Rightarrow> writer \<Rightarrow> verdict \<times> Server \<times> writer" where
  "serveCommand e authenticated c s w =
     (if \<not> authenticated then
        let (ok, terminal, s, w) = handleAuthGate c s w
        in if \<not> ok then flushThen (if terminal then Return False else Continue False) s w
           else flushThen (Continue True) s w
      else if cmd_Op c = OpAuth then
        let s = s\<lparr>srv_cmdAuth := srv_cmdAuth s + 1\<rparr>
        in if srv_authToken s = [] then flushReturn s (snd (writeLine ''CLIENT_ERROR auth not configured'' w))
           else if \<not> constantTimeEqual (cmd_Token c) (srv_authToken s)
           then flushReturn (s\<lparr>srv_authFailures := srv_authFailures s + 1\<rparr>)
                  (snd (writeLine ''CLIENT_ERROR auth failed'' w))
           else flushThen (Continue True) s (snd (writeLine ''AUTHENTICATED'' w))
      else
        let (err, s, w) = execute e c (countCommand (cmd_Op c) s) w
        in if err then (Return True, s\<lparr>srv_serverErrors := srv_serverErrors s + 1\<rparr>, w)
           else flushThen (Continue True) s w)"

definition clientError :: "Server \<Rightarrow> writer \<Rightarrow> bool \<times> Server \<times> writer" where
  "clientError s w =
     (let (err, w) = Flush (snd (writeLine ''CLIENT_ERROR bad command'' w))
      in (err, s\<lparr>srv_clientErrors := srv_clientErrors s + 1\<rparr>, w))"

definition handleReadError :: "read_error \<Rightarrow> Server \<Rightarrow> writer \<Rightarrow> bool \<times> Server \<times> writer" where
  "handleReadError e s w = (if e = IOEOF \<or> e = NetTimeout then (False, s, w) else clientError s w)"

text \<open>How a handler ends; a panic in a connection's goroutine ends the process.\<close>

datatype outcome = Returned bool | Crashed

record conn =
  cn_in :: input
  cn_out :: writer
  cn_deadline :: "time option"

lemma ReadCommand_shorter:
  assumes "ReadCommand inp = (Inr c, inp')"
  shows "length (in_data inp') < length (in_data inp)"
  using ReadCommand_ok [OF assms] by (auto simp: ate_def)

function serveConnLoop ::
  "(nat \<Rightarrow> env) \<Rightarrow> nat \<Rightarrow> bool \<Rightarrow> Server \<Rightarrow> conn \<Rightarrow> outcome \<times> Server \<times> conn" where
  "serveConnLoop envs i authenticated s cn =
     (let cn = (if 0 < srv_idleTimeout s
                then cn\<lparr>cn_deadline := Some (env_start (envs i) + srv_idleTimeout s)\<rparr> else cn)
      in case ReadCommand (cn_in cn) of
           (Inl e, inp) \<Rightarrow>
             let cn = cn\<lparr>cn_in := inp\<rparr>
             in if e = Panic then (Crashed, s, cn)
                else let (err, s, w) = handleReadError e s (cn_out cn) in (Returned err, s, cn\<lparr>cn_out := w\<rparr>)
         | (Inr c, inp) \<Rightarrow>
             let (v, s, w) = serveCommand (envs i) authenticated c s (cn_out cn);
                 cn = cn\<lparr>cn_in := inp, cn_out := w\<rparr>
             in case v of
                  Return err \<Rightarrow> (Returned err, s, cn)
                | Continue authenticated \<Rightarrow> serveConnLoop envs (Suc i) authenticated s cn)"
  by pat_completeness auto
termination
  by (relation "measure (\<lambda>(envs, i, a, s, cn). length (in_data (cn_in cn)))")
    (auto split: if_splits dest!: ReadCommand_shorter [OF sym])

declare serveConnLoop.simps [simp del]

text \<open>\<open>defer writer.Flush()\<close> runs when the loop returns.\<close>

definition serveConn :: "(nat \<Rightarrow> env) \<Rightarrow> Server \<Rightarrow> conn \<Rightarrow> outcome \<times> Server \<times> conn" where
  "serveConn envs s cn =
     (let (out, s, cn) = serveConnLoop envs 0 (srv_authToken s = []) s cn
      in case out of
           Crashed \<Rightarrow> (Crashed, s, cn)
         | Returned err \<Rightarrow> (Returned err, s, cn\<lparr>cn_out := snd (Flush (cn_out cn))\<rparr>))"

function ServeLoop ::
  "(nat \<Rightarrow> env) \<Rightarrow> nat \<Rightarrow> bool \<Rightarrow> Server \<Rightarrow> input \<Rightarrow> writer \<Rightarrow> outcome \<times> Server \<times> input \<times> writer" where
  "ServeLoop envs i authenticated s inp w =
     (case ReadCommand inp of
        (Inl e, inp) \<Rightarrow>
          if e = Panic then (Crashed, s, inp, w)
          else if e = IOEOF then (Returned False, s, inp, w)
          else let (err, s, w) = clientError s w in (Returned err, s, inp, w)
      | (Inr c, inp) \<Rightarrow>
          let (v, s, w) = serveCommand (envs i) authenticated c s w
          in case v of
               Return err \<Rightarrow> (Returned err, s, inp, w)
             | Continue authenticated \<Rightarrow> ServeLoop envs (Suc i) authenticated s inp w)"
  by pat_completeness auto
termination
  by (relation "measure (\<lambda>(envs, i, a, s, inp, w). length (in_data inp))")
    (auto dest!: ReadCommand_shorter [OF sym])

declare ServeLoop.simps [simp del]

definition Serve :: "(nat \<Rightarrow> env) \<Rightarrow> Server \<Rightarrow> input \<Rightarrow> writer \<Rightarrow> outcome \<times> Server \<times> input \<times> writer" where
  "Serve envs s inp w =
     (let (out, s, inp, w) = ServeLoop envs 0 (srv_authToken s = []) s inp w
      in case out of
           Crashed \<Rightarrow> (Crashed, s, inp, w)
         | Returned err \<Rightarrow> (Returned err, s, inp, snd (Flush w)))"

end
