(* ===== verification/Server_Spec.thy ===== *)
theory Server_Spec
  imports Server
begin

unbundle bit_operations_syntax

text \<open>
  The contract of a connection: what the server answers to a sequence of commands, as bytes, with no
  buffers, no partial writes and no parser.  The lemmas show that the buffered handlers implement
  it as long as the peer accepts the output.
\<close>

section \<open>Answers as bytes\<close>

definition line :: "string \<Rightarrow> bytes" where
  "line l = l @ [CR, LF]"

definition itemBlock :: "bool \<Rightarrow> key \<Rightarrow> Item \<Rightarrow> bytes" where
  "itemBlock withCAS key item =
     line (''VALUE '' @ key @ '' '' @ formatNat (length (it_Value item))
           @ (if withCAS then '' '' @ formatUint (it_CAS item) else []))
     @ it_Value item @ [CR, LF]"

fun mgetSpec :: "bool \<Rightarrow> (nat \<Rightarrow> time) \<Rightarrow> nat \<Rightarrow> key list \<Rightarrow> Store \<Rightarrow> bytes \<times> Store" where
  "mgetSpec withCAS clock i [] kv = (line ''END'', kv)"
| "mgetSpec withCAS clock i (key # keys) kv =
     (let (r, kv) = Store_Get (clock i) key kv; (b, kv) = mgetSpec withCAS clock (Suc i) keys kv
      in ((case r of None \<Rightarrow> [] | Some item \<Rightarrow> itemBlock withCAS key item) @ b, kv))"

definition statsSpec :: "ServerStats \<Rightarrow> bytes" where
  "statsSpec st = concat (map (\<lambda>(name, v). line (''STAT '' @ name @ '' '' @ v)) (statLines st)) @ line ''END''"

text \<open>The answer to a command, \<open>None\<close> if the handler gives up, and the new server state.\<close>

definition reply :: "env \<Rightarrow> Command \<Rightarrow> Server \<Rightarrow> bytes option \<times> Server" where
  "reply e c s =
     (let kv = srv_store s; now = env_clock e 0
      in case cmd_Op c of
           OpPing \<Rightarrow> (Some (line ''PONG''), s)
         | OpStats \<Rightarrow> (Some (statsSpec (Server_Stats now s)), s)
         | OpGet \<Rightarrow>
             (let (r, kv) = Store_Get now (cmd_Key c) kv
              in (Some ((case r of None \<Rightarrow> [] | Some item \<Rightarrow> itemBlock False (cmd_Key c) item) @ line ''END''),
                  s\<lparr>srv_store := kv\<rparr>))
         | OpSet \<Rightarrow>
             if maxTTLSeconds < cmd_TTLSeconds c then (Some (line ''CLIENT_ERROR TTL is too large''), s)
             else let (r, kv) = Store_Set (env_ord e) now (cmd_Key c) (cmd_Value c)
                                  (ttlDuration (cmd_TTLSeconds c)) kv
                  in (map_option line (setReply r), s\<lparr>srv_store := kv\<rparr>)
         | OpDelete \<Rightarrow>
             (let (found, kv) = Store_Delete now (cmd_Key c) kv
              in (Some (line (if found then ''DELETED'' else ''NOT_FOUND'')), s\<lparr>srv_store := kv\<rparr>))
         | OpMget \<Rightarrow>
             (let (b, kv) = mgetSpec False (env_clock e) 0 (cmd_Keys c) kv in (Some b, s\<lparr>srv_store := kv\<rparr>))
         | OpGets \<Rightarrow>
             (let (b, kv) = mgetSpec True (env_clock e) 0 (cmd_Keys c) kv in (Some b, s\<lparr>srv_store := kv\<rparr>))
         | OpCas \<Rightarrow>
             if maxTTLSeconds < cmd_TTLSeconds c then (Some (line ''CLIENT_ERROR TTL is too large''), s)
             else let (r, kv) = Store_Cas (env_ord e) now (cmd_Key c) (cmd_Value c)
                                  (ttlDuration (cmd_TTLSeconds c)) (cmd_CAS c) kv
                  in (map_option line (casReply r), s\<lparr>srv_store := kv\<rparr>)
         | OpIncr \<Rightarrow>
             (let (r, kv) = Store_Incr (env_ord e) now (cmd_Key c) (cmd_Delta c) kv
              in (map_option line (incrReply r), s\<lparr>srv_store := kv\<rparr>))
         | OpAuth \<Rightarrow> (Some (line ''CLIENT_ERROR unknown command''), s))"

text \<open>One round of the loop: whether it goes on, the bytes sent, and the new server state.\<close>

definition answer :: "env \<Rightarrow> bool \<Rightarrow> Command \<Rightarrow> Server \<Rightarrow> verdict \<times> bytes \<times> Server" where
  "answer e authenticated c s =
     (if \<not> authenticated \<and> cmd_Op c \<noteq> OpAuth then (Return False, line ''CLIENT_ERROR auth required'', s)
      else if cmd_Op c = OpAuth then
        let s = s\<lparr>srv_cmdAuth := srv_cmdAuth s + 1\<rparr>
        in if authenticated \<and> srv_authToken s = []
           then (Return False, line ''CLIENT_ERROR auth not configured'', s)
           else if cmd_Token c \<noteq> srv_authToken s
           then (Return False, line ''CLIENT_ERROR auth failed'', s\<lparr>srv_authFailures := srv_authFailures s + 1\<rparr>)
           else (Continue True, line ''AUTHENTICATED'', s)
      else case reply e c (countCommand (cmd_Op c) s) of
             (None, s) \<Rightarrow> (Return True, [], s\<lparr>srv_serverErrors := srv_serverErrors s + 1\<rparr>)
           | (Some b, s) \<Rightarrow> (Continue True, b, s))"

fun session :: "(nat \<Rightarrow> env) \<Rightarrow> nat \<Rightarrow> bool \<Rightarrow> Command list \<Rightarrow> Server \<Rightarrow> bool \<times> bytes \<times> Server" where
  "session envs i authenticated [] s = (False, [], s)"
| "session envs i authenticated (c # cs) s =
     (case answer (envs i) authenticated c s of
        (Return err, b, s) \<Rightarrow> (err, b, s)
      | (Continue authenticated, b, s) \<Rightarrow>
          let (err, b', s) = session envs (Suc i) authenticated cs s in (err, b @ b', s))"

section \<open>Writers\<close>

definition stream :: "writer \<Rightarrow> bytes" where
  "stream w = w_sent w @ w_buf w"

definition open_w :: "writer \<Rightarrow> bool" where
  "open_w w \<longleftrightarrow> \<not> w_failed w \<and> w_room w = None \<and> length (w_buf w) \<le> bufferSize"

text \<open>\<open>wrote p w r\<close>: the write succeeded and appended \<open>p\<close> to the output stream of \<open>w\<close>.\<close>

definition wrote :: "bytes \<Rightarrow> writer \<Rightarrow> bool \<times> writer \<Rightarrow> bool" where
  "wrote p w r \<longleftrightarrow> \<not> fst r \<and> open_w (snd r) \<and> stream (snd r) = stream w @ p"

lemma newWriter_open [simp]: "open_w (newWriter None)" "stream (newWriter None) = []"
  by (simp_all add: open_w_def stream_def newWriter_def)

lemma Flush_open: "open_w w \<Longrightarrow> Flush w = (False, w\<lparr>w_sent := stream w, w_buf := []\<rparr>)"
  by (simp add: Flush_def open_w_def connWrite_def stream_def Let_def)

lemma Flush_wrote: "open_w w \<Longrightarrow> wrote [] w (Flush w)"
  by (simp add: Flush_open wrote_def open_w_def stream_def)

lemma writeFresh_wrote: "open_w w \<Longrightarrow> w_buf w = [] \<Longrightarrow> wrote p w (writeFresh p w)"
  by (simp add: writeFresh_def wrote_def open_w_def stream_def connWrite_def Let_def)

lemma writeBytes_wrote [written]:
  assumes "open_w w"
  shows "wrote p w (writeBytes p w)"
proof (cases "w_buf w = [] \<or> length (w_buf w) + length p \<le> bufferSize")
  case True
  then show ?thesis
    using assms writeFresh_wrote [OF assms] by (auto simp: writeBytes_def wrote_def open_w_def stream_def)
next
  case False
  let ?n = "bufferSize - length (w_buf w)"
  let ?w1 = "w\<lparr>w_buf := w_buf w @ take ?n p\<rparr>"
  let ?w2 = "?w1\<lparr>w_sent := stream ?w1, w_buf := []\<rparr>"
  have o: "open_w ?w1" "open_w ?w2" using assms by (auto simp: open_w_def)
  have "writeBytes p w = writeFresh (drop ?n p) ?w2"
    using False assms Flush_open [OF o(1)] by (simp add: writeBytes_def Let_def open_w_def)
  with writeFresh_wrote [OF o(2), of "drop ?n p"] show ?thesis
    by (simp add: wrote_def stream_def)
qed

text \<open>Writes in sequence, as the handlers chain them.\<close>

lemma wrote_then [written]:
  assumes "wrote p w r" "\<And>w'. open_w w' \<Longrightarrow> wrote q w' (f w')"
  shows "wrote (p @ q) w (let (err, w) = r in if err then (True, w) else f w)"
proof (cases r)
  case (Pair err w')
  with assms(1) have o: "open_w w'" "\<not> err" "stream w' = stream w @ p" by (auto simp: wrote_def)
  with assms(2) [OF o(1)] Pair show ?thesis by (simp add: wrote_def)
qed

lemma writeLine_wrote [written]: "open_w w \<Longrightarrow> wrote (line l) w (writeLine l w)"
  unfolding writeLine_def line_def by (intro written)

lemma writeItem_wrote: "open_w w \<Longrightarrow> wrote (itemBlock b k item) w (writeItem b k item w)"
  unfolding writeItem_def itemBlock_def
  by (rule wrote_then [OF writeLine_wrote], assumption, rule wrote_then [OF writeBytes_wrote])
    (auto intro: writeBytes_wrote)

lemma writeStatLines_wrote [written]:
  "open_w w \<Longrightarrow> wrote (concat (map (\<lambda>(name, v). line (''STAT '' @ name @ '' '' @ v)) ls)) w (writeStatLines ls w)"
proof (induction ls arbitrary: w)
  case Nil
  then show ?case by (simp add: wrote_def)
next
  case (Cons x ls)
  obtain name v where x: "x = (name, v)" by fastforce
  have "wrote (line (''STAT '' @ name @ '' '' @ v)
      @ concat (map (\<lambda>(name, v). line (''STAT '' @ name @ '' '' @ v)) ls)) w (writeStatLines (x # ls) w)"
    unfolding x writeStatLines.simps by (intro wrote_then writeLine_wrote Cons)
  then show ?case by (simp add: x)
qed

lemma writeStats_wrote: "open_w w \<Longrightarrow> wrote (statsSpec st) w (writeStats st w)"
  unfolding writeStats_def statsSpec_def by (intro written)

section \<open>The handlers implement the answers\<close>

text \<open>
  \<open>did b s w r\<close>: a handler that returned \<open>r\<close> left the server in state \<open>s\<close> and appended \<open>b\<close> to the
  output stream, or, if \<open>b\<close> is \<open>None\<close>, reported an error and wrote nothing.
\<close>

definition did :: "bytes option \<Rightarrow> 's \<Rightarrow> writer \<Rightarrow> bool \<times> 's \<times> writer \<Rightarrow> bool" where
  "did b s w r \<longleftrightarrow>
     (case r of (err, s', w') \<Rightarrow> s' = s
        \<and> (case b of Some p \<Rightarrow> wrote p w (err, w') | None \<Rightarrow> err \<and> w' = w))"

lemma did_line: "open_w w \<Longrightarrow> writeLine l w = (err, w') \<Longrightarrow> did (Some (line l)) s w (err, s, w')"
  using writeLine_wrote [of w l] by (simp add: did_def)

lemma did_stats: "open_w w \<Longrightarrow> writeStats st w = (err, w') \<Longrightarrow> did (Some (statsSpec st)) s w (err, s, w')"
  using writeStats_wrote [of w st] by (simp add: did_def)

lemma did_reply: "open_w w \<Longrightarrow> writeReply r w = (err, w') \<Longrightarrow> did (map_option line r) s w (err, s, w')"
  using writeLine_wrote [of w] by (cases r) (auto simp: writeReply_def did_def, metis)

lemma did_then:
  assumes "wrote p w r" "\<And>w'. open_w w' \<Longrightarrow> did (Some q) s w' (f w')"
  shows "did (Some (p @ q)) s w (let (err, w) = r in if err then (True, kv, w) else f w)"
proof (cases r)
  case (Pair err w')
  with assms(1) have o: "open_w w'" "\<not> err" "stream w' = stream w @ p" by (auto simp: wrote_def)
  with assms(2) [OF o(1)] Pair show ?thesis by (auto simp: did_def wrote_def)
qed

lemma mgetLoop_did:
  "open_w w \<Longrightarrow> mgetSpec b clock i ks kv = (p, kv') \<Longrightarrow> did (Some p) kv' w (mgetLoop b clock i ks kv w)"
proof (induction ks arbitrary: i kv w p kv')
  case Nil
  then show ?case by (auto intro: did_line split: prod.split)
next
  case (Cons k ks)
  obtain r kv1 where g: "Store_Get (clock i) k kv = (r, kv1)" by fastforce
  obtain q kv2 where q: "mgetSpec b clock (Suc i) ks kv1 = (q, kv2)" by fastforce
  show ?case
  proof (cases r)
    case None
    with Cons.prems g q have "p = q" "kv' = kv2" by auto
    with Cons.IH [OF Cons.prems(1) q] g None show ?thesis by simp
  next
    case (Some item)
    with Cons.prems g q have "p = itemBlock b k item @ q" "kv' = kv2" by auto
    moreover have "did (Some (itemBlock b k item @ q)) kv2 w
        (let (err, w) = writeItem b k item w in if err then (True, kv1, w) else mgetLoop b clock (Suc i) ks kv1 w)"
      by (rule did_then [OF writeItem_wrote [OF Cons.prems(1)] Cons.IH [OF _ q]])
    ultimately show ?thesis using g Some by simp
  qed
qed

lemma did_store:
  "did b kv w r \<Longrightarrow> did b (s\<lparr>srv_store := kv\<rparr>) w (let (err, kv, w) = r in (err, s\<lparr>srv_store := kv\<rparr>, w))"
  by (auto simp: did_def split: prod.splits)

lemma execute_get_did:
  assumes "open_w w" "cmd_Op c = OpGet"
  shows "did (fst (reply e c s)) (snd (reply e c s)) w (execute e c s w)"
proof -
  obtain r kv where g: "Store_Get (env_clock e 0) (cmd_Key c) (srv_store s) = (r, kv)" by fastforce
  have "did (Some (itemBlock False (cmd_Key c) item @ line ''END'')) s' w
      (let (err, w) = writeItem False (cmd_Key c) item w
       in if err then (True, s', w) else let (err, w) = writeLine ''END'' w in (err, s', w))" for item s'
    by (rule did_then [OF writeItem_wrote [OF assms(1)]]) (auto intro: did_line split: prod.split)
  moreover have "did (Some (line ''END'')) s' w (let (err, w) = writeLine ''END'' w in (err, s', w))" for s'
    using assms(1) by (auto intro: did_line split: prod.split)
  ultimately show ?thesis using assms(2) g by (cases r) (simp_all add: execute_def reply_def Let_def)
qed

lemma execute_mget_did:
  assumes "open_w w" "cmd_Op c = OpMget \<or> cmd_Op c = OpGets"
  shows "did (fst (reply e c s)) (snd (reply e c s)) w (execute e c s w)"
proof -
  obtain p kv where "mgetSpec (cmd_Op c = OpGets) (env_clock e) 0 (cmd_Keys c) (srv_store s) = (p, kv)" by fastforce
  with did_store [OF mgetLoop_did [OF assms(1) this], of s] assms(2) show ?thesis
    by (auto simp: execute_def reply_def Let_def)
qed

lemma execute_did:
  assumes "open_w w" "reply e c s = (b, s')"
  shows "did b s' w (execute e c s w)"
proof -
  have "did (fst (reply e c s)) (snd (reply e c s)) w (execute e c s w)"
  proof (cases "cmd_Op c \<in> {OpGet, OpMget, OpGets}")
    case True
    then show ?thesis using execute_get_did [OF assms(1)] execute_mget_did [OF assms(1)] by blast
  next
    case False
    then show ?thesis
      using assms(1)
      by (cases "cmd_Op c"; simp add: execute_def reply_def Let_def split: prod.split;
          blast intro: did_line did_stats did_reply)
  qed
  with assms(2) show ?thesis by simp
qed

section \<open>Authentication\<close>

lemma xor_zero: "x XOR y = 0 \<longleftrightarrow> x = y" for x y :: "8 word"
proof
  assume z: "x XOR y = 0"
  have "(x XOR y) XOR y = x" by (simp add: xor.assoc)
  then show "x = y" unfolding z by simp
qed simp

lemma constantTimeLoop:
  "foldl (\<lambda>v (a, b). v OR (of_nat (byte a) XOR of_nat (byte b))) v ps = (0 :: 8 word)
     \<longleftrightarrow> v = 0 \<and> (\<forall>(a, b)\<in>set ps. a = b)"
proof (induction ps arbitrary: v)
  case (Cons p ps)
  obtain a b where p: "p = (a, b)" by fastforce
  have "unat (of_nat (byte x) :: 8 word) = byte x" for x
    using of_char_mod_256 [of x, where ?'a = nat] by (simp add: unat_of_nat)
  then have "(of_nat (byte a) :: 8 word) = of_nat (byte b) \<longleftrightarrow> a = b"
    by (metis of_char_eq_iff)
  then have "v OR (of_nat (byte a) XOR of_nat (byte b)) = 0 \<longleftrightarrow> v = 0 \<and> a = b"
    by (simp add: or_eq_0_iff xor_zero)
  with Cons p show ?case by auto
qed simp

lemma zip_all_eq: "length xs = length ys \<Longrightarrow> (\<forall>(a, b)\<in>set (zip xs ys). a = b) \<longleftrightarrow> xs = ys"
  by (induction xs ys rule: list_induct2) auto

lemma constantTimeEqual_eq [simp]: "constantTimeEqual got want \<longleftrightarrow> got = want"
  unfolding constantTimeEqual_def constantTimeLoop using zip_all_eq [of got want] by auto

section \<open>One round and the whole loop\<close>

text \<open>
  \<open>answered a w r\<close>: the round that ended in \<open>r\<close> did what \<open>a\<close> says.  When the round goes on, or
  returns after a flush, everything it wrote has been handed to the connection.
\<close>

definition answered :: "verdict \<times> bytes \<times> Server \<Rightarrow> writer \<Rightarrow> verdict \<times> Server \<times> writer \<Rightarrow> bool" where
  "answered a w r \<longleftrightarrow>
     (case a of (v, b, s) \<Rightarrow> case r of (v', s', w') \<Rightarrow>
        v' = v \<and> s' = s \<and> open_w w' \<and> stream w' = stream w @ b)"

lemma flushThen_answered:
  assumes "wrote b w r"
  shows "answered (v, b, s) w (flushThen v s (snd r))" "answered (Return False, b, s) w (flushReturn s (snd r))"
  using assms Flush_open [of "snd r"]
  by (auto simp: answered_def flushThen_def flushReturn_def wrote_def open_w_def stream_def)

lemma serveCommand_answered:
  assumes "open_w w"
  shows "answered (answer e a c s) w (serveCommand e a c s w)"
proof (cases "\<not> a \<or> cmd_Op c = OpAuth")
  case True
  note f = flushThen_answered [OF writeLine_wrote [OF assms]]
  show ?thesis
    using True f by (auto simp: answer_def serveCommand_def handleAuthGate_def Let_def)
next
  case False
  let ?s = "countCommand (cmd_Op c) s"
  obtain b s' where r: "reply e c ?s = (b, s')" by fastforce
  obtain err s'' w' where x: "execute e c ?s w = (err, s'', w')" by (metis prod_cases3)
  have d: "s'' = s'" "case b of Some p \<Rightarrow> wrote p w (err, w') | None \<Rightarrow> err \<and> w' = w"
    using execute_did [OF assms r] x by (auto simp: did_def)
  show ?thesis
  proof (cases b)
    case None
    then show ?thesis using False r x d assms by (simp add: answer_def serveCommand_def answered_def)
  next
    case (Some p)
    then have "wrote p w (err, w')" "\<not> err" using d by (auto simp: wrote_def)
    with flushThen_answered(1) [of p w "(err, w')" "Continue True" s'] False r x d Some
    show ?thesis by (simp add: answer_def serveCommand_def)
  qed
qed

definition fitsBuffer :: "Command \<Rightarrow> bool" where
  "fitsBuffer c \<longleftrightarrow> length (unwords (cmdLine c)) + 2 \<le> bufferSize"

lemma ReadCommand_EOF: "in_data inp = [] \<Longrightarrow> in_end inp = EndEOF \<Longrightarrow> ReadCommand inp = (Inl IOEOF, inp)"
  by (simp add: ReadCommand_def readLineSlice_def bufferSize_def Let_def)

lemma serveConnLoop_session:
  assumes "list_all wfCommand cs" "list_all fitsBuffer cs" "in_data (cn_in cn) = concat (map encodeCommand cs)"
    and "in_end (cn_in cn) = EndEOF" "open_w (cn_out cn)" "session envs i a cs s = (err, b, s')"
  shows "\<exists>cn'. serveConnLoop envs i a s cn = (Returned err, s', cn')
    \<and> open_w (cn_out cn') \<and> stream (cn_out cn') = stream (cn_out cn) @ b"
  using assms
proof (induction cs arbitrary: i a s cn b)
  case Nil
  then have "ReadCommand (cn_in cn) = (Inl IOEOF, cn_in cn)" by (intro ReadCommand_EOF) simp_all
  with Nil show ?case by (subst serveConnLoop.simps) (simp add: handleReadError_def)
next
  case (Cons c cs)
  let ?rest = "concat (map encodeCommand cs)"
  have rd: "ReadCommand (cn_in cn) = (Inr c, (cn_in cn)\<lparr>in_data := ?rest\<rparr>)"
    using Cons.prems by (intro ReadCommand_encoded) (auto simp: fitsBuffer_def)
  obtain v s1 w where x: "serveCommand (envs i) a c s (cn_out cn) = (v, s1, w)" by (metis prod_cases3)
  obtain p where an: "answer (envs i) a c s = (v, p, s1)" and w: "open_w w" "stream w = stream (cn_out cn) @ p"
    using serveCommand_answered [OF Cons.prems(5), of "envs i" a c s] x
    by (auto simp: answered_def split: prod.splits)
  let ?d = "if 0 < srv_idleTimeout s then Some (env_start (envs i) + srv_idleTimeout s) else cn_deadline cn"
  let ?cn = "cn\<lparr>cn_deadline := ?d, cn_in := (cn_in cn)\<lparr>in_data := ?rest\<rparr>, cn_out := w\<rparr>"
  have step: "serveConnLoop envs i a s cn = (case v of Return err \<Rightarrow> (Returned err, s1, ?cn)
      | Continue a \<Rightarrow> serveConnLoop envs (Suc i) a s1 ?cn)"
    by (subst serveConnLoop.simps) (auto simp: rd x Let_def split: verdict.split)
  show ?case
  proof (cases v)
    case (Return err')
    with Cons.prems(6) an step w show ?thesis by auto
  next
    case (Continue a')
    obtain err' q s2 where q: "session envs (Suc i) a' cs s1 = (err', q, s2)" by (metis prod_cases3)
    with Cons.prems(6) an Continue have r: "b = p @ q" "err' = err" "s2 = s'" by auto
    have "\<exists>cn'. serveConnLoop envs (Suc i) a' s1 ?cn = (Returned err, s', cn')
        \<and> open_w (cn_out cn') \<and> stream (cn_out cn') = stream (cn_out ?cn) @ q"
      using Cons.prems q r w by (intro Cons.IH) auto
    then show ?thesis using step Continue r w by auto
  qed
qed

lemma serveConn_session:
  assumes "list_all wfCommand cs" "list_all fitsBuffer cs"
    and "in_data (cn_in cn) = concat (map encodeCommand cs)" "in_end (cn_in cn) = EndEOF"
    and "cn_out cn = newWriter None" "session envs 0 (srv_authToken s = []) cs s = (err, b, s')"
  shows "\<exists>cn'. serveConn envs s cn = (Returned err, s', cn') \<and> w_sent (cn_out cn') = b"
proof -
  obtain cn' where "serveConnLoop envs 0 (srv_authToken s = []) s cn = (Returned err, s', cn')"
    "open_w (cn_out cn')" "stream (cn_out cn') = b"
    using serveConnLoop_session [OF assms(1-4) _ assms(6)] assms(5) by auto
  then show ?thesis by (simp add: serveConn_def Flush_open)
qed

end
