(* ===== verification/Server_Props.thy ===== *)
theory Server_Props
  imports Server_Spec Store_Sweep
begin

text \<open>
  Properties of the server: the handlers answer as the contract says, every connection drives the
  store by method calls only, nothing reaches the store before authentication, and the loop that
  tests use agrees with the one that serves connections.
\<close>

section \<open>Commands are runs of the store\<close>

lemma wfKey_length: "wfKey k \<Longrightarrow> length k \<le> MaxKeyBytes"
  by (simp add: wfKey_def validKey_def)

text \<open>\<open>calls c\<close> bounds the number of store methods that the command calls.\<close>

definition calls :: "Command \<Rightarrow> nat" where
  "calls c = Suc (length (cmd_Keys c))"

lemma run_one: "store_step st st' \<Longrightarrow> run 1 st st'"
  using run_step [OF run_none] by simp

lemma get_step:
  assumes "sane_config config" "store_inv config st" "wfKey k" "Store_Get now k st = (r, st')"
  shows "store_step st st'" "store_inv config st'"
  using acts_Get [OF assms(1,2) wfKey_length [OF assms(3)] assms(4)] by (auto simp: acts_def)

lemma mgetLoop_run:
  assumes "sane_config config" "store_inv config kv" "list_all wfKey ks"
    and "mgetLoop b clock i ks kv w = (err, kv', w')"
  shows "\<exists>n\<le>length ks. run n kv kv'"
  using assms
proof (induction ks arbitrary: i kv w)
  case Nil
  then show ?case by (auto intro: run_none split: prod.splits)
next
  case (Cons k ks)
  obtain r kv1 where g: "Store_Get (clock i) k kv = (r, kv1)" by fastforce
  have s: "store_step kv kv1" "store_inv config kv1"
    using get_step [OF Cons.prems(1,2) _ g] Cons.prems(3) by auto
  have go: "\<exists>n\<le>length (k # ks). run n kv kv'" if m: "mgetLoop b clock (Suc i) ks kv1 w1 = (err, kv', w')" for w1
  proof -
    obtain n where "n \<le> length ks" "run n kv1 kv'"
      using Cons.IH [OF Cons.prems(1) s(2) _ m] Cons.prems(3) by auto
    then show ?thesis using run_append [OF _ run_one [OF s(1)], of n kv'] by (intro exI [of _ "Suc n"]) auto
  qed
  show ?case
  proof (cases r)
    case None
    then show ?thesis using Cons.prems(4) g go by auto
  next
    case (Some item)
    obtain er w1 where wi: "writeItem b k item w = (er, w1)" by fastforce
    show ?thesis
    proof (cases er)
      case True
      then have "kv' = kv1" using Cons.prems(4) g Some wi by simp
      then show ?thesis using run_one [OF s(1)] by (intro exI [of _ 1]) auto
    next
      case False
      then show ?thesis using Cons.prems(4) g Some wi go [of w1] by simp
    qed
  qed
qed

lemma execute_run:
  assumes "sane_config config" "store_inv config (srv_store s)" "iterates (env_ord e)" "wfCommand c"
    and "execute e c s w = (err, s', w')"
  shows "\<exists>n\<le>calls c. run n (srv_store s) (srv_store s')"
proof -
  note pre = assms(1,2)
  have key: "cmd_Op c \<in> {OpGet, OpDelete, OpIncr, OpSet, OpCas} \<Longrightarrow> length (cmd_Key c) \<le> MaxKeyBytes"
    using assms(4) by (auto simp: wfCommand_def wfKey_length split: Op.splits)
  have one: "\<exists>n\<le>calls c. run n (srv_store s) st'" if "acts config now op k (srv_store s) r st'" for now op k r st'
    using that run_one by (intro exI [of _ 1]) (auto simp: acts_def calls_def)
  have none: "\<exists>n\<le>calls c. run n (srv_store s) (srv_store s)" by (intro exI [of _ 0]) (simp add: run_none)
  have many: "\<exists>n\<le>calls c. run n (srv_store s) kv'"
    if m: "mgetLoop b (env_clock e) 0 (cmd_Keys c) (srv_store s) w = (er, kv', w1)" "cmd_Op c \<in> {OpMget, OpGets}"
    for b kv' er w1
  proof -
    have "list_all wfKey (cmd_Keys c)" using assms(4) m(2) by (auto simp: wfCommand_def)
    from mgetLoop_run [OF pre this m(1)] show ?thesis unfolding calls_def by (meson le_SucI)
  qed
  note runs = none many one [OF acts_Set [OF pre assms(3) key]] one [OF acts_Cas [OF pre assms(3) key]]
    one [OF acts_Incr [OF pre assms(3) key]] one [OF acts_Delete [OF pre key]] one [OF acts_Get [OF pre key]]
  show ?thesis
    using assms(5)
    by (cases "cmd_Op c"; simp add: execute_def Let_def split: prod.splits option.splits if_splits; use runs in auto)
qed

lemma countCommand_store [simp]: "srv_store (countCommand op s) = srv_store s"
  by (cases op) (simp_all add: countCommand_def)

lemma execute_store_frame:
  assumes "execute e c s w = (err, s', w')"
  shows "s' = s\<lparr>srv_store := srv_store s'\<rparr>"
  using assms
  by (cases "cmd_Op c") (auto simp: execute_def Let_def split: prod.splits option.splits if_splits)

lemma flushThen_server:
  "flushThen v s w = (v', s', w') \<Longrightarrow> s' = s" "flushReturn s w = (v', s', w') \<Longrightarrow> s' = s"
  by (auto simp: flushThen_def flushReturn_def split: prod.splits if_splits)

lemma serveCommand_closed:
  assumes "serveCommand e a c s w = (v, s', w')" "\<not> (a \<and> cmd_Op c \<noteq> OpAuth)"
  shows "srv_store s' = srv_store s"
  using assms by (auto simp: serveCommand_def handleAuthGate_def Let_def split: if_splits dest!: flushThen_server)

lemma serveCommand_run:
  assumes "sane_config config" "store_inv config (srv_store s)" "iterates (env_ord e)" "wfCommand c"
    and "serveCommand e a c s w = (v, s', w')"
  shows "\<exists>n\<le>calls c. run n (srv_store s) (srv_store s')"
proof (cases "a \<and> cmd_Op c \<noteq> OpAuth")
  case False
  then have "srv_store s' = srv_store s" using serveCommand_closed [OF assms(5)] by blast
  then show ?thesis by (intro exI [of _ 0]) (simp add: run_none)
next
  case True
  obtain err s1 w1 where x: "execute e c (countCommand (cmd_Op c) s) w = (err, s1, w1)" by (metis prod_cases3)
  have "srv_store s' = srv_store s1"
    using True assms(5) x by (auto simp: serveCommand_def split: if_splits dest!: flushThen_server)
  with execute_run [OF assms(1) _ assms(3,4) x] assms(2) show ?thesis by simp
qed

section \<open>The loop, one round at a time\<close>

lemma handleReadError_store: "handleReadError e s w = (err, s', w') \<Longrightarrow> srv_store s' = srv_store s"
  by (auto simp: handleReadError_def clientError_def split: if_splits prod.splits)

lemma serveConnLoop_cases:
  assumes "serveConnLoop envs i a s cn = (out, s', cn')"
  obtains (Panics) inp where "ReadCommand (cn_in cn) = (Inl Panic, inp)" "out = Crashed" "s' = s"
      "cn_in cn' = inp" "cn_out cn' = cn_out cn"
  | (Stop) e err inp where "ReadCommand (cn_in cn) = (Inl e, inp)" "e \<noteq> Panic"
      "handleReadError e s (cn_out cn) = (err, s', cn_out cn')" "out = Returned err" "cn_in cn' = inp"
  | (Last) c inp err where "ReadCommand (cn_in cn) = (Inr c, inp)"
      "serveCommand (envs i) a c s (cn_out cn) = (Return err, s', cn_out cn')" "out = Returned err" "cn_in cn' = inp"
  | (More) c inp a' s1 cn1 where "ReadCommand (cn_in cn) = (Inr c, inp)"
      "serveCommand (envs i) a c s (cn_out cn) = (Continue a', s1, cn_out cn1)" "cn_in cn1 = inp"
      "serveConnLoop envs (Suc i) a' s1 cn1 = (out, s', cn')"
proof -
  obtain r inp where rd: "ReadCommand (cn_in cn) = (r, inp)" by fastforce
  define cn0 where "cn0 = (if 0 < srv_idleTimeout s
    then cn\<lparr>cn_deadline := Some (env_start (envs i) + srv_idleTimeout s)\<rparr> else cn)"
  have cn0: "cn_in cn0 = cn_in cn" "cn_out cn0 = cn_out cn" by (simp_all add: cn0_def)
  note eq = assms [unfolded serveConnLoop.simps [of envs i a s cn] cn0_def [symmetric] Let_def cn0 rd]
  show ?thesis
  proof (cases r)
    case (Inl e)
    show ?thesis
    proof (cases "e = Panic")
      case True
      with eq rd Inl show ?thesis by (intro Panics) (auto simp: cn0)
    next
      case False
      with eq rd Inl show ?thesis by (auto split: prod.splits simp: cn0 intro: Stop)
    qed
  next
    case (Inr c)
    obtain v s1 w where x: "serveCommand (envs i) a c s (cn_out cn) = (v, s1, w)" by (metis prod_cases3)
    show ?thesis
      using eq rd Inr x Last [of c inp] More [of c inp _ s1 "cn0\<lparr>cn_in := inp, cn_out := w\<rparr>"]
      by (cases v) (auto simp: cn0)
  qed
qed

lemma serveConnLoop_run:
  assumes "sane_config config" "\<And>i. iterates (env_ord (envs i))"
    and "store_inv config (srv_store s)" "serveConnLoop envs i a s cn = (out, s', cn')"
  shows "\<exists>n\<le>length (in_data (cn_in cn)). run n (srv_store s) (srv_store s')"
  using assms(3,4)
proof (induction "length (in_data (cn_in cn))" arbitrary: i a s cn rule: less_induct)
  case less
  have one: "\<exists>n. n + length (in_data inp) \<le> length (in_data (cn_in cn)) \<and> run n (srv_store s) (srv_store s1)"
    if "ReadCommand (cn_in cn) = (Inr c, inp)" "serveCommand (envs i) a c s (cn_out cn) = (v, s1, w)" for c inp v s1 w
  proof -
    have "wfCommand c" using ReadCommand_ok [OF that(1)] ..
    from serveCommand_run [OF assms(1) less.prems(1) assms(2) this that(2)]
    obtain n where "n \<le> calls c" "run n (srv_store s) (srv_store s1)" by blast
    then show ?thesis using ReadCommand_keys [OF that(1)] unfolding calls_def by (intro exI [of _ n]) simp
  qed
  from less.prems(2) show ?case
  proof (cases rule: serveConnLoop_cases)
    case (Panics inp)
    then show ?thesis by (intro exI [of _ 0]) (simp add: run_none)
  next
    case (Stop e err inp)
    then show ?thesis by (intro exI [of _ 0]) (auto simp: run_none dest!: handleReadError_store)
  next
    case (Last c inp err)
    show ?thesis using one [OF Last(1,2)] by (meson add_leD1)
  next
    case (More c inp a' s1 cn1)
    obtain n where n: "n + length (in_data inp) \<le> length (in_data (cn_in cn))" "run n (srv_store s) (srv_store s1)"
      using one [OF More(1,2)] by blast
    have "\<exists>n\<le>length (in_data (cn_in cn1)). run n (srv_store s1) (srv_store s')"
      using ReadCommand_shorter [OF More(1)] More(3,4) run_inv(1) [OF n(2) assms(1) less.prems(1)]
      by (intro less.hyps) auto
    then obtain m where m: "m \<le> length (in_data inp)" "run m (srv_store s1) (srv_store s')" using More(3) by auto
    show ?thesis using n(1) m(1) run_append [OF m(2) n(2)] by (intro exI [of _ "n + m"]) simp
  qed
qed

lemma serveConn_loop:
  assumes "serveConn envs s cn = (out, s', cn')"
  obtains cn1 where "serveConnLoop envs 0 (srv_authToken s = []) s cn = (out, s', cn1)"
    "cn' = (if out = Crashed then cn1 else cn1\<lparr>cn_out := snd (Flush (cn_out cn1))\<rparr>)"
  using assms by (auto simp: serveConn_def Let_def split: prod.splits outcome.splits)

section \<open>Handlers give up only on broken connections\<close>

lemma spec_replies:
  "setReply (fst (spec_set now k v ttl c n)) \<noteq> None" "casReply (fst (spec_cas now k v ttl x c n)) \<noteq> None"
  "incrReply (fst (spec_incr now k d c n)) \<noteq> None"
  by (auto simp: spec_set_def spec_cas_def spec_incr_def setReply_def casReply_def incrReply_def Let_def
      split: option.splits if_splits sum.splits prod.splits)

lemma store_replies:
  assumes "sane_config config" "store_inv config st" "iterates ord" "length k \<le> MaxKeyBytes"
  shows "setReply (fst (Store_Set ord now k v ttl st)) \<noteq> None" "casReply (fst (Store_Cas ord now k v ttl x st)) \<noteq> None"
    "incrReply (fst (Store_Incr ord now k d st)) \<noteq> None"
proof -
  note spec = spec_replies(1) [of now k v ttl "abs_shard (home k st)" "st_cas st"]
    spec_replies(2) [of now k v ttl x "abs_shard (home k st)" "st_cas st"]
    spec_replies(3) [of now k d "abs_shard (home k st)" "st_cas st"]
  show "setReply (fst (Store_Set ord now k v ttl st)) \<noteq> None"
    using spec(1) acts_set_spec [OF acts_Set [OF assms prod.collapse [symmetric]], of now v ttl] by simp
  show "casReply (fst (Store_Cas ord now k v ttl x st)) \<noteq> None"
    using spec(2) acts_cas_spec [OF acts_Cas [OF assms prod.collapse [symmetric]], of now v ttl x] by simp
  show "incrReply (fst (Store_Incr ord now k d st)) \<noteq> None"
    using spec(3) acts_incr_spec [OF acts_Incr [OF assms prod.collapse [symmetric]], of now d] by simp
qed

text \<open>\<open>honest r\<close>: a write that reports an error leaves the writer failed.\<close>

definition honest :: "bool \<times> writer \<Rightarrow> bool" where
  "honest r \<longleftrightarrow> (fst r \<longrightarrow> w_failed (snd r))"

lemma honest_then [honest_writes]: "honest r \<Longrightarrow> (\<And>w. honest (f w)) \<Longrightarrow> honest (let (err, w) = r in if err then (True, w) else f w)"
  by (auto simp: honest_def split: prod.splits)

lemma writeFresh_honest [honest_writes]: "honest (writeFresh p w)"
  by (simp add: honest_def writeFresh_def Let_def)

lemma Flush_honest [honest_writes]: "honest (Flush w)"
  by (simp add: honest_def Flush_def Let_def)

lemma writeBytes_honest [honest_writes]: "honest (writeBytes p w)"
  using writeFresh_honest honest_then [OF Flush_honest writeFresh_honest]
  unfolding writeBytes_def Let_def by (auto simp: honest_def)

lemma writeLine_honest [honest_writes]: "honest (writeLine l w)"
  unfolding writeLine_def by (intro honest_writes)

lemma writeItem_honest [honest_writes]: "honest (writeItem b k item w)"
  unfolding writeItem_def by (intro honest_writes)

lemma writeStats_honest: "honest (writeStats st w)"
proof -
  have "honest (writeStatLines ls w)" for ls w
  proof (induction ls arbitrary: w)
    case (Cons x ls)
    then show ?case by (cases x) (simp only: writeStatLines.simps honest_writes)
  qed (simp add: honest_def)
  then show ?thesis unfolding writeStats_def by (intro honest_writes)
qed

lemma mgetLoop_honest: "mgetLoop b clock i ks kv w = (err, kv', w') \<Longrightarrow> honest (err, w')"
proof (induction ks arbitrary: i kv w)
  case Nil
  then show ?case using writeLine_honest [of "''END''" w] by (auto split: prod.splits)
next
  case (Cons k ks)
  then show ?case
    using writeItem_honest [of b k _ w]
    by (auto simp: honest_def split: prod.splits option.splits if_splits) (metis fst_conv snd_conv)+
qed

lemma writeReply_honest: "r \<noteq> None \<Longrightarrow> honest (writeReply r w)"
  by (auto simp: writeReply_def writeLine_honest)

lemma execute_honest:
  assumes "sane_config config" "store_inv config (srv_store s)" "iterates (env_ord e)" "wfCommand c"
    and "execute e c s w = (err, s', w')"
  shows "honest (err, w')"
proof -
  have key: "cmd_Op c \<in> {OpSet, OpCas, OpIncr} \<Longrightarrow> length (cmd_Key c) \<le> MaxKeyBytes"
    using assms(4) by (auto simp: wfCommand_def wfKey_length split: Op.splits)
  note replies = store_replies [OF assms(1-3) key]
  have ln: "writeLine l u = (x, y) \<Longrightarrow> honest (x, y)" for l u x y using writeLine_honest [of l u] by simp
  have st: "writeStats l u = (x, y) \<Longrightarrow> honest (x, y)" for l u x y using writeStats_honest [of l u] by simp
  have it: "writeItem b k l u = (x, y) \<Longrightarrow> honest (x, y)" for b k l u x y using writeItem_honest [of b k l u] by simp
  have re: "writeReply r u = (x, y) \<Longrightarrow> r \<noteq> None \<Longrightarrow> honest (x, y)" for r u x y using writeReply_honest [of r u] by simp
  show ?thesis
  proof (cases "cmd_Op c \<in> {OpSet, OpCas, OpIncr}")
    case True
    with assms(5) replies show ?thesis
      by (auto simp: execute_def Let_def split: prod.splits if_splits elim!: ln re) (metis fst_conv re)+
  next
    case False
    with assms(5) show ?thesis
      by (cases "cmd_Op c"; auto simp: execute_def Let_def split: prod.splits if_splits option.splits
          intro: ln st it mgetLoop_honest)
  qed
qed

lemma flush_honest:
  "flushThen v s w = (v', s', w') \<Longrightarrow> v \<noteq> Return True \<Longrightarrow> v' = Return True \<Longrightarrow> w_failed w'"
  "flushReturn s w = (v', s', w') \<Longrightarrow> v' = Return True \<Longrightarrow> w_failed w'"
  using Flush_honest [of w] by (auto simp: flushThen_def flushReturn_def honest_def split: prod.splits if_splits)

lemma countCommand_errors [simp]: "srv_serverErrors (countCommand op s) = srv_serverErrors s"
  by (cases op) (simp_all add: countCommand_def)

lemma execute_frame_errors: "execute e c s w = (err, s', w') \<Longrightarrow> srv_serverErrors s' = srv_serverErrors s"
  by (drule execute_store_frame, drule arg_cong [where f = srv_serverErrors]) simp

lemma serveCommand_honest:
  assumes "sane_config config" "store_inv config (srv_store s)" "iterates (env_ord e)" "wfCommand c"
    and "serveCommand e a c s w = (v, s', w')" "v = Return True \<or> srv_serverErrors s' \<noteq> srv_serverErrors s"
  shows "w_failed w' \<and> v = Return True"
proof (cases "a \<and> cmd_Op c \<noteq> OpAuth")
  case False
  with assms(5,6) show ?thesis
    by (auto simp: serveCommand_def handleAuthGate_def Let_def split: if_splits
        dest: flushThen_server flush_honest)
next
  case True
  obtain err s1 w1 where x: "execute e c (countCommand (cmd_Op c) s) w = (err, s1, w1)" by (metis prod_cases3)
  have h: "honest (err, w1)" using assms(2) by (intro execute_honest [OF assms(1) _ assms(3,4) x]) simp
  show ?thesis
    using True assms(5,6) x h execute_frame_errors [OF x]
    by (auto simp: serveCommand_def honest_def split: if_splits dest: flushThen_server flush_honest)
qed

lemma serveConnLoop_honest:
  assumes "sane_config config" "\<And>i. iterates (env_ord (envs i))" "store_inv config (srv_store s)"
    and "serveConnLoop envs i a s cn = (out, s', cn')" "\<not> w_failed (cn_out cn')"
  shows "srv_serverErrors s' = srv_serverErrors s \<and> out \<noteq> Returned True"
  using assms(3,4)
proof (induction "length (in_data (cn_in cn))" arbitrary: i a s cn rule: less_induct)
  case less
  have wf: "wfCommand c" if "ReadCommand (cn_in cn) = (Inr c, inp)" for c inp
    using ReadCommand_ok [OF that] ..
  note honest = serveCommand_honest [OF assms(1) less.prems(1) assms(2) wf]
  from less.prems(2) show ?case
  proof (cases rule: serveConnLoop_cases)
    case (Stop e err inp)
    then show ?thesis
      using Flush_honest [of "snd (writeLine ''CLIENT_ERROR bad command'' (cn_out cn))"] assms(5)
      by (auto simp: handleReadError_def clientError_def honest_def split: if_splits prod.splits)
  next
    case (Last c inp err)
    then show ?thesis using honest [OF Last(1,2)] assms(5) by auto
  next
    case (More c inp a' s1 cn1)
    obtain n where "run n (srv_store s) (srv_store s1)"
      using serveCommand_run [OF assms(1) less.prems(1) assms(2) wf [OF More(1)] More(2)] by blast
    then have "store_inv config (srv_store s1)" using run_inv(1) assms(1) less.prems(1) by blast
    then have "srv_serverErrors s' = srv_serverErrors s1 \<and> out \<noteq> Returned True"
      using ReadCommand_shorter [OF More(1)] More(3,4) by (intro less.hyps) auto
    moreover have "srv_serverErrors s1 = srv_serverErrors s" using honest [OF More(1,2)] by blast
    ultimately show ?thesis by simp
  qed simp
qed

lemma session_ok:
  assumes "sane_config config" "\<And>i. iterates (env_ord (envs i))" "store_inv config (srv_store s)" "list_all wfCommand cs"
  shows "\<not> fst (session envs i a cs s)"
  using assms(3,4)
proof (induction cs arbitrary: i a s)
  case (Cons c cs)
  obtain v s1 w where x: "serveCommand (envs i) a c s (newWriter None) = (v, s1, w)" by (metis prod_cases3)
  obtain p where an: "answer (envs i) a c s = (v, p, s1)" and w: "\<not> w_failed w"
    using serveCommand_answered [OF newWriter_open(1), of "envs i" a c s] x
    by (auto simp: answered_def open_w_def split: prod.splits)
  have wf: "wfCommand c" "list_all wfCommand cs" using Cons.prems by auto
  obtain n where "run n (srv_store s) (srv_store s1)"
    using serveCommand_run [OF assms(1) Cons.prems(1) assms(2) wf(1) x] by blast
  then have inv: "store_inv config (srv_store s1)" using run_inv(1) assms(1) Cons.prems(1) by blast
  have "v \<noteq> Return True"
    using serveCommand_honest [OF assms(1) Cons.prems(1) assms(2) wf(1) x] w by blast
  with an Cons.IH [OF inv wf(2)] show ?case
    by (auto split: verdict.split prod.split) (metis fst_conv)
qed simp

section \<open>The two loops\<close>

lemma readLineSlice_end: "in_end (snd (readLineSlice inp)) = in_end inp"
    "fst (readLineSlice inp) = Inl NetTimeout \<Longrightarrow> in_end inp = EndTimeout"
  by (cases "in_end inp"; simp add: readLineSlice_def Let_def protocolError_def split: if_splits)+

lemma readValue_end: "in_end (snd (readValue n inp)) = in_end inp" "fst (readValue n inp) \<noteq> Inl NetTimeout"
  by (simp_all add: readValue_def Let_def protocolError_def)

lemma parseUintToken_timeout: "parseUintToken t n \<noteq> Inl NetTimeout" "parseByteCount t \<noteq> Inl NetTimeout"
  "optTTL b t \<noteq> Inl NetTimeout"
  by (auto simp: parseUintToken_def parseByteCount_def optTTL_def protocolError_def split: sum.splits)

lemma readSet_end: "in_end (snd (readSet fs inp)) = in_end inp" "fst (readSet fs inp) \<noteq> Inl NetTimeout"
  using parseUintToken_timeout
  by (auto simp: readSet_def protocolError_def case_prod_beta readValue_end split: sum.split)

lemma readCas_end: "in_end (snd (readCas fs inp)) = in_end inp" "fst (readCas fs inp) \<noteq> Inl NetTimeout"
  using parseUintToken_timeout
  by (auto simp: readCas_def protocolError_def case_prod_beta readValue_end split: sum.split)

lemma case_sum_Inl: "(case x of Inl e \<Rightarrow> Inl e | Inr v \<Rightarrow> Inr (f v)) = Inl t \<longleftrightarrow> x = Inl t"
  by (cases x) simp_all

lemma parseLine_timeout: "parseLine name fs \<noteq> Inl NetTimeout"
proof -
  have "keysFromFields ks \<noteq> Inl NetTimeout" for ks by (simp add: keysFromFields_def protocolError_def)
  then show ?thesis by (simp add: parseLine_def protocolError_def case_sum_Inl parseUintToken_timeout(1) if_distrib)
qed

lemma parseFields_end:
  "in_end (snd (parseFields fs inp)) = in_end inp" "fst (parseFields fs inp) \<noteq> Inl NetTimeout"
  by (auto simp: parseFields_def readSet_end readCas_end parseLine_timeout protocolError_def split: option.split)

lemma ReadCommand_end:
  assumes "ReadCommand inp = (r, inp')"
  shows "in_end inp' = in_end inp" "r = Inl NetTimeout \<Longrightarrow> in_end inp = EndTimeout"
proof -
  have "in_end (snd (ReadCommand inp)) = in_end inp"
    "fst (ReadCommand inp) = Inl NetTimeout \<Longrightarrow> in_end inp = EndTimeout"
    using readLineSlice_end(2) [of inp]
    by (auto simp: ReadCommand_def Let_def protocolError_def case_prod_beta readLineSlice_end(1) parseFields_end
        split: sum.splits if_splits)
  with assms show "in_end inp' = in_end inp" "r = Inl NetTimeout \<Longrightarrow> in_end inp = EndTimeout" by auto
qed

lemma ServeLoop_serveConnLoop:
  assumes "in_end (cn_in cn) \<noteq> EndTimeout" "serveConnLoop envs i a s cn = (out, s', cn')"
  shows "ServeLoop envs i a s (cn_in cn) (cn_out cn) = (out, s', cn_in cn', cn_out cn')"
  using assms
proof (induction "length (in_data (cn_in cn))" arbitrary: i a s cn rule: less_induct)
  case less
  from less.prems(2) show ?case
  proof (cases rule: serveConnLoop_cases)
    case (Stop e err inp)
    moreover have "e \<noteq> NetTimeout" using ReadCommand_end(2) [OF Stop(1)] less.prems(1) by blast
    ultimately show ?thesis
      by (subst ServeLoop.simps) (auto simp: handleReadError_def split: if_splits)
  next
    case (More c inp a' s1 cn1)
    have "ServeLoop envs (Suc i) a' s1 (cn_in cn1) (cn_out cn1) = (out, s', cn_in cn', cn_out cn')"
      using ReadCommand_shorter [OF More(1)] ReadCommand_end(1) [OF More(1)] More(3,4) less.prems(1)
      by (intro less.hyps) auto
    with More show ?thesis by (subst ServeLoop.simps) simp
  next
    case (Panics inp)
    then show ?thesis by (subst ServeLoop.simps) simp
  next
    case (Last c inp err)
    then show ?thesis by (subst ServeLoop.simps) simp
  qed
qed

end
