(* ===== verification/Server_Properties.thy ===== *)
theory Server_Properties
  imports Server_Props
begin

text \<open>
  The theorems about the connection handler: it implements the contract of \<open>session\<close>, drives the
  store by method calls only, lets nothing through before authentication, and gives up on a command
  only when the connection is broken.
\<close>

section \<open>A server to try the theorems on\<close>

abbreviation demo_server :: Server where
  "demo_server \<equiv> Server_New (New demo) 0"

abbreviation demo_envs :: "nat \<Rightarrow> env" where
  "demo_envs \<equiv> \<lambda>i. \<lparr>env_start = 1, env_ord = rev, env_clock = \<lambda>j. 2\<rparr>"

abbreviation demo_get :: Command where
  "demo_get \<equiv> (newCommand OpGet)\<lparr>cmd_Key := ''k''\<rparr>"

abbreviation conn_of :: "bytes \<Rightarrow> conn" where
  "conn_of b \<equiv> \<lparr>cn_in = \<lparr>in_data = b, in_end = EndEOF\<rparr>, cn_out = newWriter None, cn_deadline = None\<rparr>"

lemma demo_get_wf: "wfCommand demo_get"
  by code_simp

lemma demo_lines: "unwords (cmdLine demo_set) = ''set k 5 3''" "unwords (cmdLine demo_get) = ''get k''"
  by code_simp+

lemma demo_fit: "fitsBuffer demo_set" "fitsBuffer demo_get"
  by (simp_all only: fitsBuffer_def demo_lines) (simp_all add: bufferSize_def)

lemma demo_server_reachable: "reachable demo 0 (srv_store demo_server)"
  using demo_New by (simp add: Server_New_def)

lemma demo_ord: "\<forall>i. iterates (env_ord (demo_envs i))"
  by (simp add: iterates_rev)

text \<open>The first command of the input is an \<open>auth\<close> with the server's token.\<close>

definition authenticates :: "Server \<Rightarrow> input \<Rightarrow> bool" where
  "authenticates s inp \<longleftrightarrow>
     (case ReadCommand inp of
        (Inr c, _) \<Rightarrow> cmd_Op c = OpAuth \<and> cmd_Token c = srv_authToken s
      | (Inl _, _) \<Rightarrow> False)"

lemma flush_written:
  assumes "snd (Flush (snd (writeLine l (newWriter None)))) = w'"
  shows "w_sent w' = line l" "snd (Flush w') = w'" "fst (Flush (snd (writeLine l (newWriter None)))) = False"
proof -
  let ?w = "snd (writeLine l (newWriter None))"
  have w: "open_w ?w" "stream ?w = line l"
    using writeLine_wrote [OF newWriter_open(1), of l] by (simp_all add: wrote_def)
  then have "w' = ?w\<lparr>w_sent := line l, w_buf := []\<rparr>" using Flush_open [OF w(1)] assms by simp
  with w(1) show "w_sent w' = line l" "snd (Flush w') = w'"
    by (simp_all add: Flush_def open_w_def)
  show "fst (Flush ?w) = False" using Flush_open [OF w(1)] by simp
qed

section \<open>The wire contract\<close>

text \<open>
  C2 (refinement).  A connection that sends the encodings of any sequence of commands, pipelined or
  not, receives exactly the bytes that the contract \<open>session\<close> prescribes, in order; parsing, output
  buffering and flushing are invisible, and the handler returns without an error.
\<close>

theorem wire_session:
  assumes "sane_config config" "reachable config m (srv_store s)" "\<forall>i. iterates (env_ord (envs i))"
    and "list_all wfCommand cs" "list_all fitsBuffer cs"
    and "in_data (cn_in cn) = concat (map encodeCommand cs)" "in_end (cn_in cn) = EndEOF"
    and "cn_out cn = newWriter None"
  shows "\<exists>b s' cn'. session envs 0 (srv_authToken s = []) cs s = (False, b, s')
    \<and> serveConn envs s cn = (Returned False, s', cn') \<and> w_sent (cn_out cn') = b"
proof -
  obtain err b s' where x: "session envs 0 (srv_authToken s = []) cs s = (err, b, s')" by (metis prod_cases3)
  have "\<not> err"
    using session_ok [OF assms(1) _ reachable_inv [OF assms(1,2)] assms(4), of envs 0 "srv_authToken s = []"]
      assms(3) x by simp
  with x serveConn_session [OF assms(4-8) x] show ?thesis by auto
qed

theorem wire_session_witness:
  "\<exists>s' cn'. serveConn demo_envs demo_server (conn_of (encodeCommand demo_set @ encodeCommand demo_get))
      = (Returned False, s', cn')
    \<and> w_sent (cn_out cn') = line ''STORED'' @ line ''VALUE k 3'' @ line ''a b'' @ line ''END''"
proof -
  have "fst (snd (session demo_envs 0 True [demo_set, demo_get] demo_server))
      = line ''STORED'' @ line ''VALUE k 3'' @ line ''a b'' @ line ''END''"
    by code_simp
  with wire_session [OF demo_sane demo_server_reachable demo_ord, of "[demo_set, demo_get]"
      "conn_of (encodeCommand demo_set @ encodeCommand demo_get)"] demo_set_wf demo_get_wf demo_fit
  show ?thesis by (auto simp: Server_New_def)
qed

text \<open>
  Whatever bytes a peer sends, however the stream ends and whether or not the peer
  takes the output, serving the connection moves the store by at most as many public method calls as
  there are input bytes; everything proved of reachable stores holds again afterwards.
\<close>

theorem serveConn_reachable:
  assumes "sane_config config" "reachable config m (srv_store s)" "\<forall>i. iterates (env_ord (envs i))"
    and "serveConn envs s cn = (out, s', cn')"
  shows "\<exists>m'\<le>m + length (in_data (cn_in cn)). reachable config m' (srv_store s')"
proof -
  obtain cn1 where l: "serveConnLoop envs 0 (srv_authToken s = []) s cn = (out, s', cn1)"
    using serveConn_loop [OF assms(4)] .
  obtain n where "n \<le> length (in_data (cn_in cn))" "run n (srv_store s) (srv_store s')"
    using serveConnLoop_run [OF assms(1) _ reachable_inv [OF assms(1,2)] l] assms(3) by blast
  then show ?thesis
    using run_append [of n "srv_store s" "srv_store s'" m "New config"] assms(2)
    unfolding reachable_def by (intro exI [of _ "m + n"]) simp
qed

theorem serveConn_reachable_witness:
  "\<exists>m'\<le>length (encodeCommand demo_set @ ''junk'').
     reachable demo m' (srv_store (fst (snd (serveConn demo_envs demo_server (conn_of (encodeCommand demo_set @ ''junk''))))))"
proof -
  let ?r = "serveConn demo_envs demo_server (conn_of (encodeCommand demo_set @ ''junk''))"
  have "?r = (fst ?r, fst (snd ?r), snd (snd ?r))" by simp
  from serveConn_reachable [OF demo_sane demo_server_reachable demo_ord this] show ?thesis by simp
qed

section \<open>Authentication\<close>

text \<open>
  With a token configured, a connection that does not open with that very token gets at
  most one error line, and leaves the store and all statistics but the three failure counters as they
  were, whatever else it sends.
\<close>

theorem auth_gate:
  assumes "srv_authToken s \<noteq> []" "\<not> authenticates s (cn_in cn)" "cn_out cn = newWriter None"
    and "serveConn envs s cn = (out, s', cn')"
  shows "s' = s\<lparr>srv_cmdAuth := srv_cmdAuth s', srv_authFailures := srv_authFailures s', srv_clientErrors := srv_clientErrors s'\<rparr>
    \<and> w_sent (cn_out cn') \<in> {[], line ''CLIENT_ERROR auth required'', line ''CLIENT_ERROR auth failed'',
        line ''CLIENT_ERROR bad command''}"
proof -
  obtain cn1 where l: "serveConnLoop envs 0 False s cn = (out, s', cn1)"
    and cn': "cn' = (if out = Crashed then cn1 else cn1\<lparr>cn_out := snd (Flush (cn_out cn1))\<rparr>)"
    using serveConn_loop [OF assms(4)] assms(1) by auto
  have new: "w_sent (newWriter None) = []" "snd (Flush (newWriter None)) = newWriter None"
    by (simp_all add: newWriter_def Flush_def)
  from l show ?thesis
  proof (cases rule: serveConnLoop_cases)
    case (Panics inp)
    then show ?thesis using assms(3) cn' new by simp
  next
    case (Stop e err inp)
    then show ?thesis
      using assms(3) cn' new flush_written [OF refl, of "''CLIENT_ERROR bad command''"]
      by (auto simp: handleReadError_def clientError_def split: if_splits prod.splits)
  next
    case (Last c inp err)
    then show ?thesis
      using assms(2,3) cn' flush_written [OF refl, of "''CLIENT_ERROR auth required''"]
        flush_written [OF refl, of "''CLIENT_ERROR auth failed''"]
      by (auto simp: authenticates_def serveCommand_def handleAuthGate_def flushThen_def Let_def
          split: if_splits prod.splits)
  next
    case (More c inp a' s1 cn2)
    then show ?thesis
      using assms(2) by (auto simp: authenticates_def serveCommand_def handleAuthGate_def flushThen_def Let_def
          split: if_splits prod.splits)
  qed
qed

theorem auth_gate_witness:
  "w_sent (cn_out (snd (snd (serveConn demo_envs (WithAuthToken ''t'' demo_server) (conn_of (encodeCommand demo_set))))))
     \<in> {[], line ''CLIENT_ERROR auth required'', line ''CLIENT_ERROR auth failed'', line ''CLIENT_ERROR bad command''}"
proof -
  let ?s = "WithAuthToken ''t'' demo_server"
  let ?r = "serveConn demo_envs ?s (conn_of (encodeCommand demo_set))"
  have "ReadCommand \<lparr>in_data = encodeCommand demo_set, in_end = EndEOF\<rparr> = (Inr demo_set, \<lparr>in_data = [], in_end = EndEOF\<rparr>)"
    using ReadCommand_encoded [OF demo_set_wf, of "\<lparr>in_data = encodeCommand demo_set, in_end = EndEOF\<rparr>" "[]"]
      demo_fit(1) by (simp add: fitsBuffer_def)
  then have "\<not> authenticates ?s (cn_in (conn_of (encodeCommand demo_set)))"
    by (simp add: authenticates_def newCommand_def)
  moreover have "?r = (fst ?r, fst (snd ?r), snd (snd ?r))" by simp
  moreover have "srv_authToken ?s \<noteq> []" "cn_out (conn_of (encodeCommand demo_set)) = newWriter None"
    by (simp_all add: WithAuthToken_def)
  ultimately show ?thesis by (intro auth_gate [THEN conjunct2])
qed

section \<open>Errors\<close>

text \<open>
  C26 (error).  Over any reachable store and any input, a handler reports an error, and the server
  counts one, only if writing to the connection failed: no command makes the store return an error
  that the handler does not turn into a reply.
\<close>

theorem errors_only_broken:
  assumes "sane_config config" "reachable config m (srv_store s)" "\<forall>i. iterates (env_ord (envs i))"
    and "serveConn envs s cn = (out, s', cn')" "\<not> w_failed (cn_out cn')"
  shows "srv_serverErrors s' = srv_serverErrors s \<and> out \<in> {Returned False, Crashed}"
proof -
  obtain cn1 where l: "serveConnLoop envs 0 (srv_authToken s = []) s cn = (out, s', cn1)"
    and cn': "cn' = (if out = Crashed then cn1 else cn1\<lparr>cn_out := snd (Flush (cn_out cn1))\<rparr>)"
    using serveConn_loop [OF assms(4)] .
  have "\<not> w_failed (cn_out cn1)"
    using assms(5) cn' by (auto simp: Flush_def split: if_splits)
  with serveConnLoop_honest [OF assms(1) _ reachable_inv [OF assms(1,2)] l] assms(3)
  show ?thesis by (cases out) auto
qed

theorem errors_only_broken_witness:
  "srv_serverErrors (fst (snd (serveConn demo_envs demo_server (conn_of ''get'')))) = 0"
proof -
  let ?r = "serveConn demo_envs demo_server (conn_of ''get'')"
  have "ReadCommand \<lparr>in_data = ''get'', in_end = EndEOF\<rparr> = (Inl IOEOF, \<lparr>in_data = [], in_end = EndEOF\<rparr>)"
    by (simp add: ReadCommand_def readLineSlice_def bufferSize_def Let_def)
  then have "\<not> w_failed (cn_out (snd (snd ?r)))"
    by (simp add: serveConn_def serveConnLoop.simps [of demo_envs 0] handleReadError_def Server_New_def
        newWriter_def Flush_def)
  moreover have "?r = (fst ?r, fst (snd ?r), snd (snd ?r))" by simp
  ultimately have "srv_serverErrors (fst (snd ?r)) = srv_serverErrors demo_server"
    by (intro errors_only_broken [OF demo_sane demo_server_reachable demo_ord, THEN conjunct1])
  then show ?thesis by (simp add: Server_New_def)
qed

section \<open>The loop without a connection\<close>

text \<open>
  C27 (equivalence).  \<open>Serve\<close>, which the tests drive over plain readers and writers, and the
  connection loop \<open>serveConn\<close> agree on every input that does not end in a read timeout: same outcome,
  same server state, same bytes consumed and written.
\<close>

theorem Serve_eq_serveConn:
  assumes "in_end (cn_in cn) \<noteq> EndTimeout"
  shows "Serve envs s (cn_in cn) (cn_out cn)
    = (case serveConn envs s cn of (out, s', cn') \<Rightarrow> (out, s', cn_in cn', cn_out cn'))"
proof -
  obtain out s' cn1 where l: "serveConnLoop envs 0 (srv_authToken s = []) s cn = (out, s', cn1)" by (metis prod_cases3)
  show ?thesis
    using ServeLoop_serveConnLoop [OF assms l] l by (cases out) (simp_all add: Serve_def serveConn_def)
qed

theorem Serve_eq_serveConn_witness:
  "fst (Serve demo_envs demo_server \<lparr>in_data = encodeCommand demo_get, in_end = EndEOF\<rparr> (newWriter None))
    = fst (serveConn demo_envs demo_server (conn_of (encodeCommand demo_get)))"
  using Serve_eq_serveConn [of "conn_of (encodeCommand demo_get)" demo_envs demo_server]
  by (simp split: prod.split)

section \<open>Arithmetic at the edges\<close>

lemma ttl_duration:
  assumes "n \<le> maxTTLSeconds"
  shows "ttlDuration n = int (unat n) * 10 ^ 9" "ttlDuration n \<le> maxInt64"
proof -
  have "unat n \<le> 9223372036" using assms by (simp add: word_le_nat_alt maxTTLSeconds_def)
  define x where "x = int (unat n)"
  have b: "0 \<le> x" "x \<le> 9223372036" using \<open>unat n \<le> 9223372036\<close> unfolding x_def by linarith+
  have "go_int x = x" "go_int (x * 10 ^ 9) = x * 10 ^ 9" "x * 10 ^ 9 \<le> maxInt64"
    using b by (simp_all add: go_int_id maxInt64_def)
  then show "ttlDuration n = int (unat n) * 10 ^ 9" "ttlDuration n \<le> maxInt64"
    by (simp_all only: ttlDuration_def flip: x_def)
qed

text \<open>
  The largest TTL that \<open>set\<close> and \<open>cas\<close> accept is exactly the largest one whose duration
  in nanoseconds does not overflow; one second more would wrap to a negative duration.
\<close>

theorem ttl_exact:
  "(n \<le> maxTTLSeconds \<longrightarrow> ttlDuration n = int (unat n) * 10 ^ 9 \<and> ttlDuration n \<le> maxInt64)
   \<and> ttlDuration (maxTTLSeconds + 1) < 0"
proof -
  have "ttlDuration (maxTTLSeconds + 1) < 0" by (simp add: ttlDuration_def maxTTLSeconds_def go_int_def)
  then show ?thesis using ttl_duration by blast
qed

theorem ttl_exact_witness: "ttlDuration 9223372036 = 9223372036000000000"
  using ttl_exact [of 9223372036, THEN conjunct1] by (simp add: maxTTLSeconds_def)

text \<open>
  The \<open>uptime_seconds\<close> of \<open>stats\<close>, computed in floating point, is the number of whole
  seconds since the start, or one more; after 194 days and nearly a second it does round up.
\<close>

theorem uptime_bounds:
  assumes "0 \<le> d" "d \<le> maxInt64"
  shows "uptimeSeconds d \<in> {d div 10 ^ 9, d div 10 ^ 9 + 1} \<and> uptimeSeconds 16777216999999999 = 16777217"
proof -
  have up: "uptimeSeconds 16777216999999999 = 16777217" by code_simp
  let ?s = "d div 10 ^ 9" and ?n = "d mod 10 ^ 9"
  have s: "0 \<le> ?s" "?s + 1 \<le> 2 ^ 53" using assms by (auto simp: maxInt64_def)
  have d: "durationSeconds d = fl (fl (of_int ?s) + fl (of_int ?n / 10 ^ 9))"
    using assms(1) by (cases "d = 0") (simp_all add: durationSeconds_def Let_def)
  have n: "0 \<le> fl (of_int ?n / 10 ^ 9)" "fl (of_int ?n / 10 ^ 9) \<le> 1"
    using fl_mono [of 0 "of_int ?n / 10 ^ 9"] fl_mono [of "of_int ?n / 10 ^ 9" 1] fl_int [of 0] fl_int [of 1]
      pos_mod_bound [of "10 ^ 9" d] by auto
  have i: "fl (of_int ?s) = of_int ?s" "fl (of_int (?s + 1)) = of_int (?s + 1)"
    using fl_int [of ?s] fl_int [of "?s + 1"] s by (simp_all only: abs_of_nonneg)
  have "of_int ?s \<le> durationSeconds d" "durationSeconds d \<le> of_int (?s + 1)"
    using n i fl_mono [of "of_int ?s" "of_int ?s + fl (of_int ?n / 10 ^ 9)"]
      fl_mono [of "of_int ?s + fl (of_int ?n / 10 ^ 9)" "of_int (?s + 1)"] by (simp_all add: d)
  then have "?s \<le> uptimeSeconds d" "uptimeSeconds d \<le> ?s + 1"
    using s(1) by (auto simp: uptimeSeconds_def truncate_rat_def le_floor_iff floor_le_iff)
  then show ?thesis using up by auto
qed

theorem uptime_bounds_witness:
  "uptimeSeconds 1500000000 \<in> {1, 2}"
  using uptime_bounds [of 1500000000] by (simp add: maxInt64_def)

end
