(* ===== verification/Go_Text.thy ===== *)
theory Go_Text
  imports Go_Strings Float64
begin

text \<open>
  The library functions that the configuration loader calls: \<open>strings.TrimSpace\<close>, \<open>HasPrefix\<close> and
  \<open>Cut\<close>, the lines of a \<open>bufio.Scanner\<close>, \<open>strconv.Atoi\<close> and \<open>time.ParseDuration\<close>, with the facts
  that they read back what they print.
\<close>

section \<open>Trimming and cutting\<close>

abbreviation spaceRune :: "rune \<times> string \<Rightarrow> bool" where
  "spaceRune \<equiv> \<lambda>(r, b). isSpace r"

definition TrimSpace :: "string \<Rightarrow> string" where
  "TrimSpace s = concat (map snd (rev (dropWhile spaceRune (rev (dropWhile spaceRune (runes s))))))"

definition HasPrefix :: "string \<Rightarrow> string \<Rightarrow> bool" where
  "HasPrefix s p \<longleftrightarrow> take (length p) s = p"

text \<open>\<open>strings.Cut(s, c)\<close> for a separator of one byte.\<close>

definition Cut :: "string \<Rightarrow> char \<Rightarrow> string \<times> string \<times> bool" where
  "Cut s c = (let pre = takeWhile (\<lambda>d. d \<noteq> c) s; post = dropWhile (\<lambda>d. d \<noteq> c) s
     in if post = [] then (s, [], False) else (pre, tl post, True))"

section \<open>Lines of a scanner\<close>

definition maxScanTokenSize :: int where
  "maxScanTokenSize = 64 * 1024"

definition dropCR :: "string \<Rightarrow> string" where
  "dropCR s = (if s \<noteq> [] \<and> last s = CHR 0x0D then butlast s else s)"

lemma tl_dropWhile_shorter: "s \<noteq> [] \<Longrightarrow> length (tl (dropWhile P s)) < length s"
  using length_dropWhile_le [of P s] length_greater_0_conv [of s] unfolding length_tl by linarith

text \<open>The tokens of \<open>bufio.ScanLines\<close>, and whether scanning stops at a line that is too long.\<close>

function scanLines :: "string \<Rightarrow> string list \<times> bool" where
  "scanLines s =
     (if s = [] then ([], False)
      else let pre = takeWhile (\<lambda>c. c \<noteq> CHR 0x0A) s
           in if maxScanTokenSize \<le> int (length pre) then ([], True)
              else let (ls, long) = scanLines (tl (dropWhile (\<lambda>c. c \<noteq> CHR 0x0A) s))
                   in (dropCR pre # ls, long))"
  by pat_completeness auto
termination
  by (relation "measure length") (simp_all add: tl_dropWhile_shorter del: length_tl)

declare scanLines.simps [simp del]

section \<open>Atoi\<close>

definition Atoi :: "string \<Rightarrow> num_error + int" where
  "Atoi s =
     (let neg = s \<noteq> [] \<and> hd s = CHR ''-'';
          digits = (if s \<noteq> [] \<and> (hd s = CHR ''-'' \<or> hd s = CHR ''+'') then tl s else s)
      in case parseUint digits of
           Inl ErrSyntax \<Rightarrow> Inl ErrSyntax
         | Inl ErrRange \<Rightarrow> Inl ErrRange
         | Inr un \<Rightarrow>
             if \<not> neg \<and> 2 ^ 63 \<le> uint un then Inl ErrRange
             else if neg \<and> 2 ^ 63 < uint un then Inl ErrRange
             else Inr (if neg then - uint un else uint un))"

section \<open>ParseDuration\<close>

datatype duration_error = InvalidDuration | MissingUnit | UnknownUnit

definition digitInt :: "char \<Rightarrow> int" where
  "digitInt c = rbyte c - 48"

fun leadingInt :: "string \<Rightarrow> int \<Rightarrow> (int \<times> string) option" where
  "leadingInt [] x = Some (x, [])"
| "leadingInt (c # cs) x =
     (if \<not> isDigit c then Some (x, c # cs)
      else if 2 ^ 63 div 10 < x then None
      else let x = x * 10 + digitInt c in if 2 ^ 63 < x then None else leadingInt cs x)"

fun leadingFraction :: "string \<Rightarrow> int \<Rightarrow> rat \<Rightarrow> bool \<Rightarrow> int \<times> rat \<times> string" where
  "leadingFraction [] x scale overflow = (x, scale, [])"
| "leadingFraction (c # cs) x scale overflow =
     (if \<not> isDigit c then (x, scale, c # cs)
      else if overflow then leadingFraction cs x scale overflow
      else if (2 ^ 63 - 1) div 10 < x then leadingFraction cs x scale True
      else let y = x * 10 + digitInt c
           in if 2 ^ 63 < y then leadingFraction cs x scale True
              else leadingFraction cs y (fl (scale * 10)) overflow)"

definition unitMap :: "string \<Rightarrow> int option" where
  "unitMap u =
     (if u = ''ns'' then Some 1
      else if u = ''us'' \<or> u = [CHR 0xC2, CHR 0xB5, CHR ''s''] \<or> u = [CHR 0xCE, CHR 0xBC, CHR ''s'']
      then Some (10 ^ 3)
      else if u = ''ms'' then Some (10 ^ 6)
      else if u = ''s'' then Some (10 ^ 9)
      else if u = ''m'' then Some (60 * 10 ^ 9)
      else if u = ''h'' then Some (3600 * 10 ^ 9)
      else None)"

definition numChar :: "char \<Rightarrow> bool" where
  "numChar c \<longleftrightarrow> c = CHR ''.'' \<or> isDigit c"

text \<open>
  One number with its unit: the nanoseconds and what is left of the string.  All intermediate values
  are below \<open>2^64\<close>, so the unsigned arithmetic of the library does not wrap here.
\<close>

definition durationTerm :: "string \<Rightarrow> duration_error + int \<times> string" where
  "durationTerm s =
     (if s = [] \<or> \<not> numChar (hd s) then Inl InvalidDuration
      else case leadingInt s 0 of
        None \<Rightarrow> Inl InvalidDuration
      | Some (v, s1) \<Rightarrow>
          (let dot = s1 \<noteq> [] \<and> hd s1 = CHR ''.'';
               (f, scale, s2) = (if dot then leadingFraction (tl s1) 0 1 False else (0, 1, s1));
               pre = length s1 \<noteq> length s;
               post = dot \<and> length s2 \<noteq> length (tl s1)
           in if \<not> pre \<and> \<not> post then Inl InvalidDuration
              else let u = takeWhile (\<lambda>c. \<not> numChar c) s2; s3 = dropWhile (\<lambda>c. \<not> numChar c) s2
                   in if u = [] then Inl MissingUnit
                      else case unitMap u of
                        None \<Rightarrow> Inl UnknownUnit
                      | Some unit \<Rightarrow>
                          if 2 ^ 63 div unit < v then Inl InvalidDuration
                          else let v = v * unit
                               in if 0 < f
                                  then let v = v + \<lfloor>fl (fl (of_int f) * fl (of_int unit / scale))\<rfloor>
                                       in if 2 ^ 63 < v then Inl InvalidDuration else Inr (v, s3)
                                  else Inr (v, s3)))"

lemma leadingInt_length: "leadingInt s x = Some (v, s') \<Longrightarrow> length s' \<le> length s"
  by (induction s x rule: leadingInt.induct) (auto simp: Let_def split: if_splits)

lemma leadingFraction_length: "leadingFraction s x scale o' = (f, sc, s') \<Longrightarrow> length s' \<le> length s"
  by (induction s x scale o' rule: leadingFraction.induct) (auto simp: Let_def split: if_splits)

lemma durationTerm_shorter: "durationTerm s = Inr (v, s') \<Longrightarrow> length s' < length s"
proof -
  assume a: "durationTerm s = Inr (v, s')"
  then obtain w s1 where l: "leadingInt s 0 = Some (w, s1)"
    by (auto simp: durationTerm_def split: if_splits option.splits)
  let ?t = "if s1 \<noteq> [] \<and> hd s1 = CHR ''.'' then leadingFraction (tl s1) 0 1 False else (0, 1, s1)"
  obtain f sc s2 where t: "?t = (f, sc, s2)" by (metis prod_cases3)
  have "length s2 \<le> length s1"
    using t leadingFraction_length [of "tl s1" 0 1 False f sc s2] by (auto split: if_splits)
  moreover have "length s1 \<le> length s" by (rule leadingInt_length [OF l])
  moreover have "takeWhile (\<lambda>c. \<not> numChar c) s2 \<noteq> []" "s' = dropWhile (\<lambda>c. \<not> numChar c) s2"
    using a l t by (auto simp: durationTerm_def Let_def split: if_splits option.splits)
  moreover have "length s2 = length (takeWhile (\<lambda>c. \<not> numChar c) s2) + length (dropWhile (\<lambda>c. \<not> numChar c) s2)"
    by (metis length_append takeWhile_dropWhile_id)
  ultimately show ?thesis by (simp flip: length_greater_0_conv)
qed

function durationLoop :: "string \<Rightarrow> int \<Rightarrow> duration_error + int" where
  "durationLoop s d =
     (if s = [] then Inr d
      else case durationTerm s of
        Inl e \<Rightarrow> Inl e
      | Inr (v, s) \<Rightarrow>
          let d = (d + v) mod 2 ^ 64 in if 2 ^ 63 < d then Inl InvalidDuration else durationLoop s d)"
  by pat_completeness auto
termination
  by (relation "measure (\<lambda>(s, d). length s)") (auto dest: durationTerm_shorter)

declare durationLoop.simps [simp del]

definition ParseDuration :: "string \<Rightarrow> duration_error + duration" where
  "ParseDuration orig =
     (let sign = orig \<noteq> [] \<and> (hd orig = CHR ''-'' \<or> hd orig = CHR ''+'');
          neg = sign \<and> hd orig = CHR ''-'';
          s = (if sign then tl orig else orig)
      in if s = ''0'' then Inr 0
         else if s = [] then Inl InvalidDuration
         else case durationLoop s 0 of
           Inl e \<Rightarrow> Inl e
         | Inr d \<Rightarrow>
             if neg then Inr (go_int (- d))
             else if 2 ^ 63 - 1 < d then Inl InvalidDuration
             else Inr d)"

section \<open>Results are in range\<close>

lemma uint_neg: "- numeral k \<le> uint (w :: uint64)" "- uint (w :: uint64) < numeral k"
  by (rule order_trans [of _ 0]; simp) (rule le_less_trans [of _ 0]; simp)

lemma Atoi_range: "Atoi s = Inr n \<Longrightarrow> int64_range n"
  by (auto simp: Atoi_def Let_def int64_range_def uint_neg split: sum.splits num_error.splits if_splits)

lemma durationLoop_range: "durationLoop s d = Inr v \<Longrightarrow> 0 \<le> d \<Longrightarrow> d \<le> 2 ^ 63 \<Longrightarrow> 0 \<le> v \<and> v \<le> 2 ^ 63"
proof (induction s d rule: durationLoop.induct)
  case (1 s d)
  show ?case
  proof (cases "s = []")
    case True
    with 1(2-4) show ?thesis by (simp add: durationLoop.simps)
  next
    case False
    obtain w t where t: "durationTerm s = Inr (w, t)" "\<not> 2 ^ 63 < (d + w) mod 2 ^ 64"
      "durationLoop t ((d + w) mod 2 ^ 64) = Inr v"
      using 1(2) False by (subst (asm) durationLoop.simps) (auto simp: Let_def split: sum.splits if_splits)
    show ?thesis by (rule 1(1) [OF False t(1) refl refl t(2,3)]) (use t(2) in auto)
  qed
qed

lemma ParseDuration_range: "ParseDuration s = Inr d \<Longrightarrow> int64_range d"
  by (auto simp: ParseDuration_def Let_def go_int_range split: sum.splits if_splits
      dest!: durationLoop_range) (simp_all add: int64_range_def)

section \<open>Reading back what is printed\<close>

lemma isDigit_sign: "isDigit c \<Longrightarrow> c \<noteq> CHR ''-'' \<and> c \<noteq> CHR ''+'' \<and> c \<noteq> CHR ''.''"
  by (auto simp: isDigit_def)

lemma formatNat_hd: "isDigit (hd (formatNat n))"
  using formatNat_digits [of n] formatNat_nonempty [of n] by (cases "formatNat n") auto

lemma uint_of_nat64: "m < 2 ^ 64 \<Longrightarrow> uint (of_nat m :: uint64) = int m"
  by (simp add: unsigned_of_nat take_bit_nat_eq_self)

lemma Atoi_formatInt:
  assumes "int64_range n"
  shows "Atoi (formatInt n) = Inr n"
proof (cases "n < 0")
  case True
  then obtain m where n: "n = - int m" "0 < m" by (cases n rule: int_cases3) auto
  then have "m < 2 ^ 64" using assms by (auto simp: int64_range_def)
  with n assms show ?thesis
    by (simp add: Atoi_def formatInt_def parseUint_formatNat uint_of_nat64 int64_range_def)
next
  case False
  then obtain m where n: "n = int m" by (metis nat_0_le not_less)
  then have "m < 2 ^ 64" using assms by (auto simp: int64_range_def)
  with n assms isDigit_sign [OF formatNat_hd [of m]] show ?thesis
    by (simp add: Atoi_def formatInt_def parseUint_formatNat uint_of_nat64 int64_range_def)
qed

lemma digitInt_val: "isDigit c \<Longrightarrow> digitInt c = int (digitVal c)"
  by (auto simp: digitInt_def digitVal_def isDigit_def of_nat_diff of_nat_of_char)

lemma leadingInt_digits:
  assumes "list_all isDigit ds" "rest = [] \<or> \<not> isDigit (hd rest)" "int (decVal x ds) \<le> 2 ^ 63"
  shows "leadingInt (ds @ rest) (int x) = Some (int (decVal x ds), rest)"
  using assms
proof (induction ds arbitrary: x)
  case Nil
  then show ?case by (cases rest) auto
next
  case (Cons c ds)
  have "10 * x + digitVal c \<le> decVal (10 * x + digitVal c) ds" by (rule decVal_mono)
  then have b: "int (10 * x + digitVal c) \<le> 2 ^ 63" using Cons.prems(3) by simp
  have e: "int x * 10 + digitInt c = int (10 * x + digitVal c)" using Cons.prems(1) by (simp add: digitInt_val)
  have "leadingInt (ds @ rest) (int (10 * x + digitVal c)) = Some (int (decVal x (c # ds)), rest)"
    using Cons.prems Cons.IH [of "10 * x + digitVal c"] by simp
  with b Cons.prems(1) show ?case by (simp add: Let_def e del: of_nat_add of_nat_mult)
qed

text \<open>\<open>printNs d\<close> is a duration as a count of nanoseconds.\<close>

definition printNs :: "duration \<Rightarrow> string" where
  "printNs d = formatNat (nat d) @ ''ns''"

lemma ParseDuration_printNs:
  assumes "0 \<le> d" "d \<le> maxInt64"
  shows "ParseDuration (printNs d) = Inr d"
proof -
  let ?ds = "formatNat (nat d)"
  have s: "printNs d \<noteq> []" "isDigit (hd (printNs d))" "printNs d \<noteq> ''0''"
    using formatNat_hd [of "nat d"] by (auto simp: printNs_def hd_append append_eq_Cons_conv)
  have nd: "\<not> isDigit CHR ''n''" "\<not> numChar CHR ''n''" "\<not> numChar CHR ''s''" by code_simp+
  have "leadingInt (?ds @ ''ns'') (int 0) = Some (int (decVal 0 ?ds), ''ns'')"
    using assms nd by (intro leadingInt_digits) (auto simp: formatNat_digits maxInt64_def)
  then have li: "leadingInt (printNs d) 0 = Some (d, ''ns'')" using assms(1) by (simp add: printNs_def)
  have "durationTerm (printNs d) = Inr (d, [])"
    using s li nd assms by (simp add: durationTerm_def numChar_def unitMap_def maxInt64_def printNs_def Let_def)
  then have "durationLoop (printNs d) 0 = Inr d"
    using s(1) assms by (subst durationLoop.simps) (simp add: durationLoop.simps [of "[]"] maxInt64_def Let_def)
  then show ?thesis
    using s(1,3) isDigit_sign [OF s(2)] assms by (simp add: ParseDuration_def maxInt64_def)
qed

section \<open>Trimming\<close>

definition trimmed :: "string \<Rightarrow> bool" where
  "trimmed s \<longleftrightarrow> s = [] \<or> \<not> spaceRune (hd (runes s)) \<and> \<not> spaceRune (last (runes s))"

definition blanks :: "string \<Rightarrow> bool" where
  "blanks w \<longleftrightarrow> list_all (\<lambda>c. c = CHR '' '' \<or> c = CHR 0x09) w"

lemma blank_rune: "c = CHR '' '' \<or> c = CHR 0x09 \<Longrightarrow> rbyte c < 128 \<and> isSpace (rbyte c)"
  by (auto simp: isSpace_def)

lemma runes_ascii_append:
  "list_all (\<lambda>c. rbyte c < 128) p \<Longrightarrow> runes (p @ s) = map (\<lambda>c. (rbyte c, [c])) p @ runes s"
  by (induction p) (auto simp: runes_ascii)

lemma blanks_runes: "blanks w \<Longrightarrow> runes (w @ s) = map (\<lambda>c. (rbyte c, [c])) w @ runes s"
  unfolding blanks_def by (intro runes_ascii_append) (erule list.pred_mono_strong, use blank_rune in blast)

lemma blanks_space: "blanks w \<Longrightarrow> list_all spaceRune (map (\<lambda>c. (rbyte c, [c])) w)"
  unfolding blanks_def list.pred_map by (erule list.pred_mono_strong) (use blank_rune in simp)

lemma runes_eq_Nil [simp]: "runes s = [] \<longleftrightarrow> s = []"
  by (subst runes.simps) (auto split: prod.split)

lemma trim_both:
  assumes "list_all P xs" "list_all P zs" "ys = [] \<or> \<not> P (hd ys) \<and> \<not> P (last ys)"
  shows "rev (dropWhile P (rev (dropWhile P (xs @ ys @ zs)))) = ys"
proof (cases "ys = []")
  case True
  have "dropWhile P (xs @ zs) = []" using assms by (auto simp: list_all_iff)
  then show ?thesis unfolding True append_Nil by (simp only: rev.simps dropWhile.simps)
next
  case False
  have "dropWhile P (xs @ ys @ zs) = ys @ zs"
    using assms False by (cases ys) (auto simp: list_all_iff dropWhile_append2)
  moreover have "dropWhile P (rev zs @ rev ys) = rev ys"
    using assms False dropWhile_append2 [of "rev zs" P "rev ys"]
    by (cases ys rule: rev_cases) (auto simp: list_all_iff)
  ultimately show ?thesis by simp
qed

lemma TrimSpace_blanks:
  assumes "blanks w1" "blanks w2" "trimmed s"
  shows "TrimSpace (w1 @ s @ w2) = s"
proof -
  have "w2 = [] \<or> rbyte (hd w2) < 128" using assms(2) by (cases w2) (auto simp: blanks_def)
  then have "runes (s @ w2) = runes s @ runes w2" by (rule runes_append)
  then have "runes (w1 @ s @ w2) = map (\<lambda>c. (rbyte c, [c])) w1 @ runes s @ map (\<lambda>c. (rbyte c, [c])) w2"
    using blanks_runes [OF assms(1)] blanks_runes [OF assms(2), of "[]"] by simp
  then show ?thesis
    unfolding TrimSpace_def
    using trim_both [OF blanks_space blanks_space, OF assms(1,2), of "runes s"] assms(3)
    by (simp add: trimmed_def runes_bytes)
qed

lemma blanks_Nil [simp]: "blanks []"
  by (simp add: blanks_def)

lemma trimmed_Nil [simp]: "trimmed []"
  by (simp add: trimmed_def)

section \<open>Files of lines\<close>

definition plainLine :: "string \<Rightarrow> bool" where
  "plainLine l \<longleftrightarrow> CHR 0x0A \<notin> set l \<and> (l \<noteq> [] \<longrightarrow> last l \<noteq> CHR 0x0D) \<and> int (length l) < maxScanTokenSize"

definition unlines :: "string list \<Rightarrow> string" where
  "unlines ls = concat (map (\<lambda>l. l @ [CHR 0x0A]) ls)"

lemma unlines_simps [simp]: "unlines [] = []" "unlines (l # ls) = l @ CHR 0x0A # unlines ls"
  by (simp_all add: unlines_def)

lemma scanLines_unlines: "list_all plainLine ls \<Longrightarrow> scanLines (unlines ls) = (ls, False)"
proof (induction ls)
  case (Cons l ls)
  let ?s = "l @ CHR 0x0A # unlines ls"
  have l: "\<forall>c\<in>set l. c \<noteq> CHR 0x0A" "dropCR l = l" "\<not> maxScanTokenSize \<le> int (length l)"
    using Cons.prems by (auto simp: plainLine_def dropCR_def)
  have "takeWhile (\<lambda>c. c \<noteq> CHR 0x0A) ?s = l" "tl (dropWhile (\<lambda>c. c \<noteq> CHR 0x0A) ?s) = unlines ls"
    using l(1) by (simp_all add: takeWhile_append2 dropWhile_append2)
  moreover have "scanLines (unlines ls) = (ls, False)" using Cons by simp
  moreover have "?s \<noteq> []" by simp
  ultimately have "scanLines ?s = (l # ls, False)"
    by (subst scanLines.simps) (simp only: l if_False Let_def case_prod_conv)
  then show ?case by simp
qed (simp add: scanLines.simps)

end
