(* ===== verification/RunConfig.thy ===== *)
theory RunConfig
  imports Go_Text
begin

text \<open>
  The configuration loader of \<open>internal/config/config.go\<close>.  A file is what \<open>os.Open\<close> finds: nothing
  (\<open>os.ErrNotExist\<close>), something that cannot be opened, or bytes that may end in a read error.  Errors are values that say which of the loader's messages
  is returned, with the path and line number it names; \<open>OpenError\<close> says whether the file is missing.
\<close>

section \<open>Configuration\<close>

record RunConfig =
  cg_Addr :: string
  cg_PprofAddr :: string
  cg_Shards :: int
  cg_MaxValueBytes :: int
  cg_MaxMemoryBytes :: int
  cg_ItemOverheadBytes :: int
  cg_CleanupInterval :: duration
  cg_TLSCert :: string
  cg_TLSKey :: string
  cg_AuthToken :: string
  cg_IdleTimeout :: duration
  cg_MaxConnections :: int
  cg_ShutdownTimeout :: duration

abbreviation second :: duration where
  "second \<equiv> 10 ^ 9"

definition Default :: RunConfig where
  "Default =
     \<lparr>cg_Addr = ''0.0.0.0:11211'', cg_PprofAddr = [], cg_Shards = 16, cg_MaxValueBytes = 1024 * 1024,
      cg_MaxMemoryBytes = 64 * 1024 * 1024, cg_ItemOverheadBytes = 64, cg_CleanupInterval = 60 * second,
      cg_TLSCert = [], cg_TLSKey = [], cg_AuthToken = [], cg_IdleTimeout = 5 * 60 * second,
      cg_MaxConnections = 1024, cg_ShutdownTimeout = 10 * second\<rparr>"

definition TLSEnabled :: "RunConfig \<Rightarrow> bool" where
  "TLSEnabled c \<longleftrightarrow> cg_TLSCert c \<noteq> [] \<and> cg_TLSKey c \<noteq> []"

section \<open>Errors\<close>

datatype field_error =
    UnknownKey string
  | BadInt string num_error
  | BadDuration string duration_error

datatype line_error = ExpectedKeyValue | FieldError field_error

datatype load_error =
    OpenError bool
  | LineError string nat line_error
  | TokenTooLong
  | ReadError
  | InvalidConfig string string

section \<open>Fields\<close>

definition cfgInt :: "string \<Rightarrow> string \<Rightarrow> (int \<Rightarrow> RunConfig) \<Rightarrow> field_error + RunConfig" where
  "cfgInt value name put = (case Atoi value of Inl e \<Rightarrow> Inl (BadInt name e) | Inr n \<Rightarrow> Inr (put n))"

definition cfgDuration :: "string \<Rightarrow> string \<Rightarrow> (duration \<Rightarrow> RunConfig) \<Rightarrow> field_error + RunConfig" where
  "cfgDuration value name put =
     (case ParseDuration value of Inl e \<Rightarrow> Inl (BadDuration name e) | Inr d \<Rightarrow> Inr (put d))"

definition setField :: "string \<Rightarrow> string \<Rightarrow> RunConfig \<Rightarrow> field_error + RunConfig" where
  "setField key value cfg =
     (if key = ''addr'' then Inr (cfg\<lparr>cg_Addr := value\<rparr>)
      else if key = ''pprof-addr'' then Inr (cfg\<lparr>cg_PprofAddr := value\<rparr>)
      else if key = ''shards'' then cfgInt value ''shards'' (\<lambda>n. cfg\<lparr>cg_Shards := n\<rparr>)
      else if key = ''max-value-bytes'' then cfgInt value ''max-value-bytes'' (\<lambda>n. cfg\<lparr>cg_MaxValueBytes := n\<rparr>)
      else if key = ''max-memory-bytes'' then cfgInt value ''max-memory-bytes'' (\<lambda>n. cfg\<lparr>cg_MaxMemoryBytes := n\<rparr>)
      else if key = ''item-overhead-bytes''
      then cfgInt value ''item-overhead-bytes'' (\<lambda>n. cfg\<lparr>cg_ItemOverheadBytes := n\<rparr>)
      else if key = ''cleanup-interval''
      then cfgDuration value ''cleanup-interval'' (\<lambda>d. cfg\<lparr>cg_CleanupInterval := d\<rparr>)
      else if key = ''tls-cert'' then Inr (cfg\<lparr>cg_TLSCert := value\<rparr>)
      else if key = ''tls-key'' then Inr (cfg\<lparr>cg_TLSKey := value\<rparr>)
      else if key = ''auth-token'' then Inr (cfg\<lparr>cg_AuthToken := value\<rparr>)
      else if key = ''idle-timeout'' then cfgDuration value ''idle-timeout'' (\<lambda>d. cfg\<lparr>cg_IdleTimeout := d\<rparr>)
      else if key = ''max-connections'' then cfgInt value ''max-connections'' (\<lambda>n. cfg\<lparr>cg_MaxConnections := n\<rparr>)
      else if key = ''shutdown-timeout''
      then cfgDuration value ''shutdown-timeout'' (\<lambda>d. cfg\<lparr>cg_ShutdownTimeout := d\<rparr>)
      else Inl (UnknownKey key))"

section \<open>Validation\<close>

text \<open>The message of the first test that fails.\<close>

definition validate :: "RunConfig \<Rightarrow> string option" where
  "validate c =
     (if cg_MaxValueBytes c \<le> 0 then Some ''max-value-bytes must be positive''
      else if cg_MaxMemoryBytes c \<le> 0 then Some ''max-memory-bytes must be positive''
      else if cg_ItemOverheadBytes c < 0 then Some ''item-overhead-bytes must be non-negative''
      else if cg_MaxMemoryBytes c < cg_MaxValueBytes c
      then Some ''max-value-bytes must be less than or equal to max-memory-bytes''
      else if cg_CleanupInterval c < 0 then Some ''cleanup-interval must be non-negative''
      else if cg_Shards c \<le> 0 then Some ''shards must be positive''
      else if (cg_TLSCert c = []) \<noteq> (cg_TLSKey c = []) then Some ''tls-cert and tls-key must be set together''
      else if cg_IdleTimeout c < 0 then Some ''idle-timeout must be non-negative''
      else if cg_MaxConnections c < 0 then Some ''max-connections must be non-negative''
      else if cg_ShutdownTimeout c < 0 then Some ''shutdown-timeout must be non-negative''
      else None)"

section \<open>Loading a file\<close>

datatype conf_file = Missing | Unopenable | File bytes bool

text \<open>One line of the file.\<close>

definition loadLine :: "string \<Rightarrow> RunConfig \<Rightarrow> line_error + RunConfig" where
  "loadLine text cfg =
     (let line = TrimSpace text
      in if line = [] \<or> HasPrefix line ''#'' then Inr cfg
         else case Cut line (CHR ''='') of
           (key, value, ok) \<Rightarrow>
             if \<not> ok then Inl ExpectedKeyValue
             else case setField (TrimSpace key) (TrimSpace value) cfg of
               Inl e \<Rightarrow> Inl (FieldError e)
             | Inr cfg \<Rightarrow> Inr cfg)"

fun loadLines :: "string \<Rightarrow> nat \<Rightarrow> string list \<Rightarrow> RunConfig \<Rightarrow> load_error + RunConfig" where
  "loadLines path lineNo [] cfg = Inr cfg"
| "loadLines path lineNo (l # ls) cfg =
     (let lineNo = Suc lineNo
      in case loadLine l cfg of
           Inl e \<Rightarrow> Inl (LineError path lineNo e)
         | Inr cfg \<Rightarrow> loadLines path lineNo ls cfg)"

definition Load :: "string \<Rightarrow> conf_file \<Rightarrow> load_error + RunConfig" where
  "Load path f =
     (case f of
        Missing \<Rightarrow> Inl (OpenError True)
      | Unopenable \<Rightarrow> Inl (OpenError False)
      | File content readErr \<Rightarrow>
          (let (ls, tooLong) = scanLines content
           in case loadLines path 0 ls Default of
                Inl e \<Rightarrow> Inl e
              | Inr cfg \<Rightarrow>
                  if tooLong then Inl TokenTooLong
                  else if readErr then Inl ReadError
                  else case validate cfg of
                    Some msg \<Rightarrow> Inl (InvalidConfig path msg)
                  | None \<Rightarrow> Inr cfg))"

end
