(* ===== verification/RunConfig_Props.thy ===== *)
theory RunConfig_Props
  imports RunConfig
begin

text \<open>
  Properties of the configuration loader: it reads back every valid configuration, blanks and
  comments do not matter, what it accepts is valid, and its errors name the first offending line.
\<close>

section \<open>Single lines\<close>

definition keyWord :: "string \<Rightarrow> bool" where
  "keyWord k \<longleftrightarrow> k \<noteq> [] \<and> hd k \<noteq> CHR ''#''
     \<and> list_all (\<lambda>c. 33 \<le> rbyte c \<and> rbyte c < 127 \<and> c \<noteq> CHR ''='') k"

lemma keyWord_ascii: "keyWord k \<Longrightarrow> list_all (\<lambda>c. rbyte c < 128) k"
  unfolding keyWord_def by (auto elim: list.pred_mono_strong)

lemma keyWord_runes: "keyWord k \<Longrightarrow> runes (k @ s) = map (\<lambda>c. (rbyte c, [c])) k @ runes s"
  by (intro runes_ascii_append keyWord_ascii)

lemma printable_space: "33 \<le> r \<Longrightarrow> r < 127 \<Longrightarrow> \<not> isSpace r"
  by (auto simp: isSpace_def)

definition printable :: "string \<Rightarrow> bool" where
  "printable s \<longleftrightarrow> list_all (\<lambda>c. 33 \<le> rbyte c \<and> rbyte c < 127) s"

lemma printable_ends:
  assumes "printable s" "s \<noteq> []"
  shows "\<not> isSpace (rbyte (hd s))" "\<not> isSpace (rbyte (last s))"
  using assms unfolding printable_def list_all_iff by (metis hd_in_set last_in_set printable_space)+

lemma printable_trimmed: "printable s \<Longrightarrow> trimmed s"
proof -
  assume p: "printable s"
  have "list_all (\<lambda>c. rbyte c < 128) s" using p unfolding printable_def by (rule list.pred_mono_strong) simp
  then have "runes s = map (\<lambda>c. (rbyte c, [c])) s" using runes_ascii_append [of s "[]"] by simp
  then show ?thesis using printable_ends [OF p] by (auto simp: trimmed_def hd_map last_map)
qed

lemma printable_newline: "printable s \<Longrightarrow> CHR 0x0A \<notin> set s"
  unfolding printable_def list_all_iff by force

lemma keyWord_printable: "keyWord k \<Longrightarrow> printable k"
  unfolding keyWord_def printable_def by (auto elim: list.pred_mono_strong)

lemma keyWord_trimmed: "keyWord k \<Longrightarrow> trimmed k"
  by (intro printable_trimmed keyWord_printable)

lemma keyWord_hd: "keyWord k \<Longrightarrow> \<not> isSpace (rbyte (hd k))"
  using printable_ends(1) [OF keyWord_printable] by (simp add: keyWord_def)

lemma field_trimmed:
  assumes "keyWord k" "blanks w2" "blanks w3" "trimmed v" "v = [] \<longrightarrow> w3 = []"
  shows "trimmed (k @ w2 @ ''='' @ w3 @ v)"
proof -
  let ?rs = "runes (k @ w2 @ ''='' @ w3 @ v)" and ?a = "map (\<lambda>c. (rbyte c, [c]))"
  have rs: "?rs = ?a k @ ?a w2 @ (61, ''='') # ?a w3 @ runes v"
    using keyWord_runes [OF assms(1)] blanks_runes [OF assms(2)] blanks_runes [OF assms(3)] by (simp add: runes_ascii)
  have k: "k \<noteq> []" using assms(1) by (simp add: keyWord_def)
  then have "hd ?rs = (rbyte (hd k), [hd k])" unfolding rs by (cases k) simp_all
  moreover have "last ?rs = (if v = [] then (61, ''='') else last (runes v))"
    using assms(5) unfolding rs by simp
  moreover have "\<not> isSpace 61" by (simp add: isSpace_def)
  ultimately show ?thesis using keyWord_hd [OF assms(1)] assms(4) unfolding trimmed_def by (cases "v = []") simp_all
qed

lemma Cut_field:
  assumes "keyWord k" "blanks w"
  shows "Cut (k @ w @ ''='' @ t) (CHR ''='') = (k @ w, t, True)"
proof -
  have "CHR ''='' \<notin> set k" "CHR ''='' \<notin> set w"
    using assms unfolding keyWord_def blanks_def list_all_iff by force+
  then have "takeWhile (\<lambda>d. d \<noteq> CHR ''='') (k @ w @ ''='' @ t) = k @ w"
    "dropWhile (\<lambda>d. d \<noteq> CHR ''='') (k @ w @ ''='' @ t) = ''='' @ t"
    by (simp_all add: takeWhile_append dropWhile_append)
  then show ?thesis by (simp add: Cut_def Let_def)
qed

lemma loadLine_field:
  assumes "blanks w1" "keyWord k" "blanks w2" "blanks w3" "trimmed v" "blanks w4"
  shows "loadLine (w1 @ k @ w2 @ ''='' @ w3 @ v @ w4) cfg
    = (case setField k v cfg of Inl e \<Rightarrow> Inl (FieldError e) | Inr c \<Rightarrow> Inr c)"
proof -
  have b: "blanks (w3 @ w4)" using assms by (simp add: blanks_def)
  define u u' where "u = (if v = [] then [] else w3)" and "u' = (if v = [] then w3 @ w4 else w4)"
  then have u: "w3 @ v @ w4 = u @ v @ u'" "blanks u" "blanks u'" "v = [] \<longrightarrow> u = []"
    using assms(4,6) b by simp_all
  have t: "TrimSpace (w1 @ (k @ w2 @ ''='' @ u @ v) @ u') = k @ w2 @ ''='' @ u @ v"
    by (intro TrimSpace_blanks field_trimmed assms u)
  have k: "TrimSpace (k @ w2) = k" using TrimSpace_blanks [OF blanks_Nil assms(3) keyWord_trimmed [OF assms(2)]] by simp
  have v: "TrimSpace (u @ v) = v" using TrimSpace_blanks [OF u(2) blanks_Nil assms(5)] by simp
  have "\<not> HasPrefix (k @ w2 @ ''='' @ u @ v) ''#''" "k \<noteq> []"
    using assms(2) by (cases k; simp add: HasPrefix_def keyWord_def)+
  then show ?thesis
    using t Cut_field [OF assms(2,3), of "u @ v"] k v u(1) by (simp add: loadLine_def Let_def)
qed

section \<open>Whole files\<close>

text \<open>The integers and durations of a configuration are machine integers.\<close>

definition inRange :: "RunConfig \<Rightarrow> bool" where
  "inRange c \<longleftrightarrow> list_all int64_range
     [cg_Shards c, cg_MaxValueBytes c, cg_MaxMemoryBytes c, cg_ItemOverheadBytes c, cg_CleanupInterval c,
      cg_IdleTimeout c, cg_MaxConnections c, cg_ShutdownTimeout c]"

lemma setField_inRange: "setField k v c = Inr c' \<Longrightarrow> inRange c \<Longrightarrow> inRange c'"
  by (auto simp: setField_def cfgInt_def cfgDuration_def inRange_def Atoi_range ParseDuration_range
      split: if_splits sum.splits)

lemma loadLine_inRange: "loadLine l c = Inr c' \<Longrightarrow> inRange c \<Longrightarrow> inRange c'"
  by (auto simp: loadLine_def Let_def setField_inRange split: if_splits sum.splits prod.splits)

lemma loadLines_inRange: "loadLines path n ls c = Inr c' \<Longrightarrow> inRange c \<Longrightarrow> inRange c'"
  by (induction ls arbitrary: n c) (auto simp: Let_def dest: loadLine_inRange split: sum.splits)

text \<open>A configuration as the lines of a file, every key once.\<close>

definition render :: "RunConfig \<Rightarrow> (string \<times> string) list" where
  "render c =
     [(''addr'', cg_Addr c), (''pprof-addr'', cg_PprofAddr c), (''shards'', formatInt (cg_Shards c)),
      (''max-value-bytes'', formatInt (cg_MaxValueBytes c)), (''max-memory-bytes'', formatInt (cg_MaxMemoryBytes c)),
      (''item-overhead-bytes'', formatInt (cg_ItemOverheadBytes c)),
      (''cleanup-interval'', printNs (cg_CleanupInterval c)), (''tls-cert'', cg_TLSCert c),
      (''tls-key'', cg_TLSKey c), (''auth-token'', cg_AuthToken c), (''idle-timeout'', printNs (cg_IdleTimeout c)),
      (''max-connections'', formatInt (cg_MaxConnections c)), (''shutdown-timeout'', printNs (cg_ShutdownTimeout c))]"

definition fieldLine :: "string \<times> string \<Rightarrow> string" where
  "fieldLine f = fst f @ '' = '' @ snd f"

definition plainValue :: "string \<Rightarrow> bool" where
  "plainValue v \<longleftrightarrow> trimmed v \<and> CHR 0x0A \<notin> set v \<and> int (length v) < 65000"

definition wfConfig :: "RunConfig \<Rightarrow> bool" where
  "wfConfig c \<longleftrightarrow> validate c = None \<and> inRange c
     \<and> list_all plainValue [cg_Addr c, cg_PprofAddr c, cg_TLSCert c, cg_TLSKey c, cg_AuthToken c]"

fun setFields :: "(string \<times> string) list \<Rightarrow> RunConfig \<Rightarrow> field_error + RunConfig" where
  "setFields [] cfg = Inr cfg"
| "setFields ((k, v) # fs) cfg = (case setField k v cfg of Inl e \<Rightarrow> Inl e | Inr c \<Rightarrow> setFields fs c)"

lemma loadLines_fields:
  assumes "list_all (\<lambda>(k, v). keyWord k \<and> trimmed v) fs" "setFields fs cfg = Inr c"
  shows "loadLines path n (map fieldLine fs) cfg = Inr c"
  using assms
proof (induction fs arbitrary: n cfg)
  case (Cons f fs)
  obtain k v where f: "f = (k, v)" by fastforce
  obtain c1 where c1: "setField k v cfg = Inr c1" "setFields fs c1 = Inr c"
    using Cons.prems(2) f by (auto split: sum.splits)
  have "blanks '' ''" by (simp add: blanks_def)
  then have "loadLine (fieldLine f) cfg = Inr c1"
    using loadLine_field [of "[]" k "'' ''" "'' ''" v "[]" cfg] Cons.prems(1) f c1(1) by (simp add: fieldLine_def)
  with Cons f c1(2) show ?case by simp
qed simp

lemma setFields_render:
  assumes "inRange c" "0 \<le> cg_CleanupInterval c" "0 \<le> cg_IdleTimeout c" "0 \<le> cg_ShutdownTimeout c"
  shows "setFields (render c) cfg = Inr c"
proof -
  have "ParseDuration (printNs d) = Inr d" if "d \<in> {cg_CleanupInterval c, cg_IdleTimeout c, cg_ShutdownTimeout c}" for d
    using that assms by (intro ParseDuration_printNs) (auto simp: inRange_def int64_range_def maxInt64_def)
  moreover have "Atoi (formatInt n) = Inr n"
    if "n \<in> {cg_Shards c, cg_MaxValueBytes c, cg_MaxMemoryBytes c, cg_ItemOverheadBytes c, cg_MaxConnections c}" for n
    using that assms by (intro Atoi_formatInt) (auto simp: inRange_def)
  ultimately show ?thesis
    by (cases c) (simp add: render_def setField_def cfgInt_def cfgDuration_def)
qed

lemma digits_printable: "list_all isDigit s \<Longrightarrow> printable s"
  unfolding printable_def by (erule list.pred_mono_strong) (auto simp: isDigit_rune)

lemma formatNat_printable: "printable (formatNat n)"
  by (intro digits_printable formatNat_digits)

lemma formatInt_plain: "int64_range n \<Longrightarrow> plainValue (formatInt n)"
proof -
  assume "int64_range n"
  then have "nat n < 10 ^ 19" "nat (- n) < 10 ^ 19" by (auto simp: int64_range_def)
  then have l: "length (formatNat (nat n)) \<le> 19" "length (formatNat (nat (- n))) \<le> 19"
    by (auto intro: formatNat_length_le)
  have "printable (formatInt n)" using formatNat_printable by (auto simp: formatInt_def printable_def)
  then show ?thesis using l by (auto simp: plainValue_def printable_trimmed printable_newline) (auto simp: formatInt_def)
qed

lemma printNs_plain: "int64_range d \<Longrightarrow> plainValue (printNs d)"
proof -
  assume "int64_range d"
  then have "nat d < 10 ^ 19" by (auto simp: int64_range_def)
  then have l: "length (formatNat (nat d)) \<le> 19" by (rule formatNat_length_le) simp
  have "printable (printNs d)" using formatNat_printable by (auto simp: printNs_def printable_def)
  then show ?thesis using l by (simp add: plainValue_def printable_trimmed printable_newline) (simp add: printNs_def)
qed

lemma render_values: "wfConfig c \<Longrightarrow> list_all plainValue (map snd (render c))"
  using formatInt_plain printNs_plain by (auto simp: wfConfig_def inRange_def render_def)

lemma render_keys: "list_all (\<lambda>k. keyWord k \<and> length k < 20) (map fst (render c))"
  by (simp add: render_def keyWord_def)

lemma trimmed_last: "trimmed (u @ [c]) \<Longrightarrow> rbyte c < 128 \<Longrightarrow> \<not> isSpace (rbyte c)"
  using runes_append [of "[c]" u] by (simp add: trimmed_def runes_ascii)

lemma fieldLine_plain:
  assumes "keyWord k" "length k < 20" "plainValue v"
  shows "plainLine (fieldLine (k, v))"
proof -
  have "CHR 0x0A \<notin> set k" by (rule printable_newline [OF keyWord_printable [OF assms(1)]])
  moreover have "v \<noteq> [] \<longrightarrow> last v \<noteq> CHR 0x0D"
    using assms(3) trimmed_last [of _ "CHR 0x0D"]
    by (cases v rule: rev_cases) (auto simp: plainValue_def isSpace_def)
  ultimately show ?thesis
    using assms by (auto simp: plainLine_def fieldLine_def plainValue_def maxScanTokenSize_def)
qed

lemma loadLines_error:
  "loadLines path n ls c = Inl (LineError p k e) \<longleftrightarrow>
   p = path \<and> n < k \<and> k \<le> n + length ls
   \<and> (\<exists>c'. loadLines path n (take (k - Suc n) ls) c = Inr c' \<and> loadLine (ls ! (k - Suc n)) c' = Inl e)"
proof (induction ls arbitrary: n c)
  case (Cons l ls)
  show ?case
  proof (cases "k = Suc n")
    case True
    have "loadLines path (Suc n) ls c' \<noteq> Inl (LineError p (Suc n) e)" for c'
      using Cons.IH [of "Suc n" c'] True by simp
    with True show ?thesis by (auto simp: Let_def split: sum.split)
  next
    case False
    then show ?thesis
      using Cons.IH [of "Suc n"]
      by (cases "n < k") (auto simp: Let_def take_Cons' nth_Cons' Suc_diff_Suc split: sum.split)
  qed
qed simp

definition ignorable :: "string \<Rightarrow> bool" where
  "ignorable l \<longleftrightarrow> TrimSpace l = [] \<or> HasPrefix (TrimSpace l) ''#''"

lemma loadLines_ignorable:
  "loadLines path n ls c = Inr c' \<longleftrightarrow> loadLines path m (filter (\<lambda>l. \<not> ignorable l) ls) c = Inr c'"
proof (induction ls arbitrary: n m c)
  case (Cons l ls)
  show ?case
  proof (cases "ignorable l")
    case True
    then have "loadLine l c = Inr c" by (auto simp: loadLine_def ignorable_def Let_def)
    with True Cons.IH [of "Suc n" c m] show ?thesis by simp
  next
    case False
    with Cons.IH [of "Suc n" _ "Suc m"] show ?thesis by (auto simp: Let_def split: sum.split)
  qed
qed simp

lemma Load_valid:
  assumes "Load path f = Inr c"
  shows "0 < cg_MaxValueBytes c \<and> cg_MaxValueBytes c \<le> cg_MaxMemoryBytes c \<and> 0 \<le> cg_ItemOverheadBytes c
    \<and> 0 < cg_Shards c \<and> 0 \<le> cg_CleanupInterval c \<and> 0 \<le> cg_IdleTimeout c \<and> 0 \<le> cg_MaxConnections c
    \<and> 0 \<le> cg_ShutdownTimeout c \<and> (TLSEnabled c \<longleftrightarrow> cg_TLSCert c \<noteq> []) \<and> inRange c"
proof -
  obtain ls where l: "loadLines path 0 ls Default = Inr c" "validate c = None"
    using assms by (auto simp: Load_def split: conf_file.splits prod.splits sum.splits if_splits option.splits)
  have "inRange c" by (rule loadLines_inRange [OF l(1)]) code_simp
  with l(2) show ?thesis by (auto simp: validate_def TLSEnabled_def split: if_splits)
qed

section \<open>Properties\<close>

text \<open>
  C33 (round trip).  Every valid configuration, written as a file of \<open>key = value\<close> lines, is loaded
  back unchanged: integers at their full range, durations to the nanosecond.
\<close>

theorem Load_render:
  assumes "wfConfig c"
  shows "Load path (File (unlines (map fieldLine (render c))) False) = Inr c"
proof -
  have f: "\<forall>(k, v)\<in>set (render c). keyWord k \<and> length k < 20 \<and> plainValue v"
    using render_values [OF assms] render_keys [of c] by (auto simp: list_all_iff split_beta)
  then have "list_all plainLine (map fieldLine (render c))"
    using fieldLine_plain by (auto simp: list_all_iff)
  then have "scanLines (unlines (map fieldLine (render c))) = (map fieldLine (render c), False)"
    by (rule scanLines_unlines)
  moreover have "loadLines path 0 (map fieldLine (render c)) Default = Inr c"
    using f assms
    by (intro loadLines_fields setFields_render) (auto simp: list_all_iff plainValue_def wfConfig_def validate_def split: if_splits)
  ultimately show ?thesis using assms by (simp add: Load_def wfConfig_def)
qed

theorem Load_render_witness:
  "Load ''minikv.conf'' (File (unlines (map fieldLine (render Default))) False) = Inr Default"
proof -
  have "wfConfig Default" by code_simp
  then show ?thesis by (rule Load_render)
qed

text \<open>
  C34 (type).  A configuration that \<open>Load\<close> returns passed validation: limits positive and consistent,
  durations and counts not negative, TLS certificate and key both present or both absent; and every
  number in it is a machine integer.
\<close>

theorem Load_sound:
  assumes "Load path f = Inr c"
  shows "0 < cg_MaxValueBytes c \<and> cg_MaxValueBytes c \<le> cg_MaxMemoryBytes c \<and> 0 \<le> cg_ItemOverheadBytes c
    \<and> 0 < cg_Shards c \<and> 0 \<le> cg_CleanupInterval c \<and> 0 \<le> cg_IdleTimeout c \<and> 0 \<le> cg_MaxConnections c
    \<and> 0 \<le> cg_ShutdownTimeout c \<and> (TLSEnabled c \<longleftrightarrow> cg_TLSCert c \<noteq> []) \<and> inRange c"
  by (rule Load_valid [OF assms])

theorem Load_sound_witness:
  "\<exists>c. Load ''p'' (File ''shards = 4'' False) = Inr c \<and> cg_Shards c = 4 \<and> 0 < cg_MaxValueBytes c"
proof -
  have l: "Load ''p'' (File ''shards = 4'' False) = Inr (Default\<lparr>cg_Shards := 4\<rparr>)" by code_simp
  from Load_sound [OF l, THEN conjunct1] l show ?thesis by (intro exI [of _ "Default\<lparr>cg_Shards := 4\<rparr>"]) simp
qed

text \<open>
  C35 (error).  When \<open>Load\<close> fails on a line, it names the path it was given and the number of the first
  line that does not parse, counted from 1; all lines before it were accepted.
\<close>

theorem Load_error_line:
  "Load path (File b r) = Inl (LineError p k e) \<longleftrightarrow>
   p = path \<and> 1 \<le> k \<and> k \<le> length (fst (scanLines b))
   \<and> (\<exists>c. loadLines path 0 (take (k - 1) (fst (scanLines b))) Default = Inr c
        \<and> loadLine (fst (scanLines b) ! (k - 1)) c = Inl e)"
proof -
  have "Load path (File b r) = Inl (LineError p k e)
      \<longleftrightarrow> loadLines path 0 (fst (scanLines b)) Default = Inl (LineError p k e)"
    by (auto simp: Load_def split: prod.split sum.split option.split)
  then show ?thesis by (simp add: loadLines_error Suc_le_eq)
qed

text \<open>
  Comment lines and blank lines do not matter: a file loads to a configuration
  exactly when it loads to the same one with all these lines removed.
\<close>

theorem Load_comments:
  assumes "list_all plainLine ls"
  shows "Load path (File (unlines ls) r) = Inr c
    \<longleftrightarrow> Load path (File (unlines (filter (\<lambda>l. \<not> ignorable l) ls)) r) = Inr c"
proof -
  have load: "Load path (File (unlines ks) r) = Inr c
      \<longleftrightarrow> loadLines path 0 ks Default = Inr c \<and> \<not> r \<and> validate c = None" if "list_all plainLine ks" for ks
    using scanLines_unlines [OF that] by (auto simp: Load_def split: sum.split option.split)
  have "list_all plainLine (filter (\<lambda>l. \<not> ignorable l) ls)" using assms by (simp add: list_all_iff)
  with load [OF assms] load loadLines_ignorable [of path 0 ls Default c 0] show ?thesis by blast
qed

theorem Load_comments_witness:
  "Load ''p'' (File (unlines [''# shards'', ''shards = 4'', '' '']) False) = Inr (Default\<lparr>cg_Shards := 4\<rparr>)"
proof -
  have "list_all plainLine [''# shards'', ''shards = 4'', '' '']" by code_simp
  moreover have "filter (\<lambda>l. \<not> ignorable l) [''# shards'', ''shards = 4'', '' ''] = [''shards = 4'']" by code_simp
  moreover have "Load ''p'' (File (unlines [''shards = 4'']) False) = Inr (Default\<lparr>cg_Shards := 4\<rparr>)" by code_simp
  ultimately show ?thesis using Load_comments [of "[''# shards'', ''shards = 4'', '' '']" "''p''" False] by simp
qed

text \<open>
  Blanks around the key, the equals sign and the value are ignored, and only the
  first equals sign separates: the value may contain more of them.
\<close>

theorem loadLine_spacing:
  assumes "blanks w1" "keyWord k" "blanks w2" "blanks w3" "trimmed v" "blanks w4"
  shows "loadLine (w1 @ k @ w2 @ ''='' @ w3 @ v @ w4) cfg = map_sum FieldError id (setField k v cfg)"
  unfolding loadLine_field [OF assms] by (cases "setField k v cfg") simp_all

theorem loadLine_spacing_witness:
  "loadLine ''  auth-token =  a = b '' Default = Inr (Default\<lparr>cg_AuthToken := ''a = b''\<rparr>)"
proof -
  have "blanks ''  ''" "blanks '' ''" "keyWord ''auth-token''" "trimmed ''a = b''" by code_simp+
  then have "loadLine (''  '' @ ''auth-token'' @ '' '' @ ''='' @ ''  '' @ ''a = b'' @ '' '') Default
      = map_sum FieldError id (setField ''auth-token'' ''a = b'' Default)"
    by (intro loadLine_spacing)
  then show ?thesis by (simp add: setField_def)
qed

end
