(* ===== verification/Lifecycle.thy ===== *)
theory Lifecycle
  imports KV_Prelude
begin

text \<open>
  The life of connections in \<open>internal/server/server.go\<close>: \<open>ServeConn\<close> with the connection cap, the
  wait group, the table of open connections and its deferred calls, \<open>Shutdown\<close>, and the accept loop
  of \<open>run\<close> in \<open>cmd/minikv/main.go\<close> that calls them.  Every handler is a goroutine, so the model is a
  step relation in which handlers, \<open>Shutdown\<close> and the accept loop interleave; a step is one
  synchronised action of the code.

  What a handler does with a command is the subject of theory Server; here it matters only whether
  the command loop goes on.  The environment's choices (what a read returns, whether a command ends
  the loop) are arguments of the step.
\<close>

section \<open>Handlers\<close>

text \<open>Where a handler is: the phase names what it has done last.\<close>

datatype phase =
    Accepted | Opened | Rejecting | Refused
  | HasSlot | InGroup | Registered
  | Looping | Reading | Executing
  | Closing | Closed | Inactive | Deregistered | OutOfGroup | Gone

datatype read_deadline = NoDeadline | IdleDeadline | Expired

record handler =
  h_phase :: phase
  h_deadline :: read_deadline
  h_closed :: bool
  h_buffered :: nat

definition newHandler :: handler where
  "newHandler = \<lparr>h_phase = Accepted, h_deadline = NoDeadline, h_closed = False, h_buffered = 0\<rparr>"

datatype shutdown_phase = NotStarted | Waiting | ForceClosed | Finished bool

record life =
  lf_handlers :: "handler list"
  lf_sem :: nat
  lf_cap :: "nat option"
  lf_wg :: int
  lf_conns :: "nat list"
  lf_active :: int
  lf_opened :: nat
  lf_rejected :: nat
  lf_idle :: bool
  lf_accepting :: bool
  lf_shutdown :: shutdown_phase

definition newLife :: "nat option \<Rightarrow> bool \<Rightarrow> life" where
  "newLife cap idle =
     \<lparr>lf_handlers = [], lf_sem = 0, lf_cap = cap, lf_wg = 0, lf_conns = [], lf_active = 0, lf_opened = 0,
      lf_rejected = 0, lf_idle = idle, lf_accepting = True, lf_shutdown = NotStarted\<rparr>"

definition setHandler :: "nat \<Rightarrow> (handler \<Rightarrow> handler) \<Rightarrow> life \<Rightarrow> life" where
  "setHandler i f s = s\<lparr>lf_handlers := (lf_handlers s)[i := f (lf_handlers s ! i)]\<rparr>"

definition goto :: "nat \<Rightarrow> phase \<Rightarrow> life \<Rightarrow> life" where
  "goto i p = setHandler i (\<lambda>h. h\<lparr>h_phase := p\<rparr>)"

section \<open>Slots and the connection table\<close>

definition acquireSlot :: "life \<Rightarrow> bool \<times> life" where
  "acquireSlot s =
     (case lf_cap s of
        None \<Rightarrow> (True, s)
      | Some n \<Rightarrow> if lf_sem s < n then (True, s\<lparr>lf_sem := lf_sem s + 1\<rparr>) else (False, s))"

definition releaseSlot :: "life \<Rightarrow> life" where
  "releaseSlot s = (case lf_cap s of None \<Rightarrow> s | Some _ \<Rightarrow> s\<lparr>lf_sem := lf_sem s - 1\<rparr>)"

definition registerConn :: "nat \<Rightarrow> life \<Rightarrow> life" where
  "registerConn i s = s\<lparr>lf_conns := List.insert i (lf_conns s)\<rparr>"

definition deregisterConn :: "nat \<Rightarrow> life \<Rightarrow> life" where
  "deregisterConn i s = s\<lparr>lf_conns := removeAll i (lf_conns s)\<rparr>"

section \<open>One action of a handler\<close>

text \<open>
  \<open>ReadCmd n\<close>: a read returns a command, and \<open>n\<close> more complete commands are then in the read buffer.
  A buffered command is returned whatever the state of the socket; a read that needs the socket
  fails if the connection is closed or its deadline has passed.
\<close>

datatype choice = ReadCmd nat | ReadFails | GoOn | Stop

definition readSocket :: "nat \<Rightarrow> choice \<Rightarrow> life \<Rightarrow> life option" where
  "readSocket i ch s =
     (let h = lf_handlers s ! i
      in case ch of
           ReadCmd n \<Rightarrow>
             if 0 < h_buffered h
             then Some (goto i Executing (setHandler i (\<lambda>h. h\<lparr>h_buffered := h_buffered h - 1\<rparr>) s))
             else if h_closed h \<or> h_deadline h = Expired then None
             else Some (goto i Executing (setHandler i (\<lambda>h. h\<lparr>h_buffered := n\<rparr>) s))
         | ReadFails \<Rightarrow> Some (goto i Closing s)
         | _ \<Rightarrow> None)"

definition serveConnStep :: "nat \<Rightarrow> choice \<Rightarrow> life \<Rightarrow> life option" where
  "serveConnStep i ch s =
     (case h_phase (lf_handlers s ! i) of
        Looping \<Rightarrow>
          Some (goto i Reading (if lf_idle s then setHandler i (\<lambda>h. h\<lparr>h_deadline := IdleDeadline\<rparr>) s else s))
      | Reading \<Rightarrow> readSocket i ch s
      | Executing \<Rightarrow> (case ch of GoOn \<Rightarrow> Some (goto i Looping s) | Stop \<Rightarrow> Some (goto i Closing s) | _ \<Rightarrow> None)
      | _ \<Rightarrow> None)"

definition handlerStep :: "nat \<Rightarrow> choice \<Rightarrow> life \<Rightarrow> life option" where
  "handlerStep i ch s =
     (case h_phase (lf_handlers s ! i) of
        Accepted \<Rightarrow> Some (goto i Opened (s\<lparr>lf_opened := lf_opened s + 1\<rparr>))
      | Opened \<Rightarrow>
          (case acquireSlot s of
             (True, s) \<Rightarrow> Some (goto i HasSlot s)
           | (False, s) \<Rightarrow> Some (goto i Rejecting (s\<lparr>lf_rejected := lf_rejected s + 1\<rparr>)))
      | Rejecting \<Rightarrow> Some (goto i Refused (setHandler i (\<lambda>h. h\<lparr>h_closed := True\<rparr>) s))
      | Refused \<Rightarrow> None
      | HasSlot \<Rightarrow> Some (goto i InGroup (s\<lparr>lf_wg := lf_wg s + 1\<rparr>))
      | InGroup \<Rightarrow> Some (goto i Registered (registerConn i s))
      | Registered \<Rightarrow> Some (goto i Looping (s\<lparr>lf_active := lf_active s + 1\<rparr>))
      | Closing \<Rightarrow> Some (goto i Closed (setHandler i (\<lambda>h. h\<lparr>h_closed := True\<rparr>) s))
      | Closed \<Rightarrow> Some (goto i Inactive (s\<lparr>lf_active := lf_active s - 1\<rparr>))
      | Inactive \<Rightarrow> Some (goto i Deregistered (deregisterConn i s))
      | Deregistered \<Rightarrow> Some (goto i OutOfGroup (s\<lparr>lf_wg := lf_wg s - 1\<rparr>))
      | OutOfGroup \<Rightarrow> Some (goto i Gone (releaseSlot s))
      | Gone \<Rightarrow> None
      | _ \<Rightarrow> serveConnStep i ch s)"

section \<open>Shutdown and the accept loop\<close>

text \<open>\<open>for c := range s.conns\<close>, under the lock of the table.\<close>

definition forConns :: "(handler \<Rightarrow> handler) \<Rightarrow> life \<Rightarrow> life" where
  "forConns f s = s\<lparr>lf_handlers :=
     map (\<lambda>i. if i \<in> set (lf_conns s) then f (lf_handlers s ! i) else lf_handlers s ! i)
       [0..<length (lf_handlers s)]\<rparr>"

definition Shutdown_begin :: "life \<Rightarrow> life" where
  "Shutdown_begin s = (forConns (\<lambda>h. h\<lparr>h_deadline := Expired\<rparr>) s)\<lparr>lf_shutdown := Waiting\<rparr>"

definition Shutdown_done :: "life \<Rightarrow> life option" where
  "Shutdown_done s = (if lf_wg s = 0 then Some (s\<lparr>lf_shutdown := Finished True\<rparr>) else None)"

definition Shutdown_expire :: "life \<Rightarrow> life" where
  "Shutdown_expire s = (forConns (\<lambda>h. h\<lparr>h_closed := True\<rparr>) s)\<lparr>lf_shutdown := ForceClosed\<rparr>"

definition Shutdown_forced :: "life \<Rightarrow> life option" where
  "Shutdown_forced s = (if lf_wg s = 0 then Some (s\<lparr>lf_shutdown := Finished False\<rparr>) else None)"

inductive life_step :: "life \<Rightarrow> life \<Rightarrow> bool" where
  accept: "lf_accepting s \<Longrightarrow> life_step s (s\<lparr>lf_handlers := lf_handlers s @ [newHandler]\<rparr>)"
| stop_accepting: "lf_accepting s \<Longrightarrow> life_step s (s\<lparr>lf_accepting := False\<rparr>)"
| handler: "i < length (lf_handlers s) \<Longrightarrow> handlerStep i ch s = Some s' \<Longrightarrow> life_step s s'"
| shutdown: "\<not> lf_accepting s \<Longrightarrow> lf_shutdown s = NotStarted \<Longrightarrow> life_step s (Shutdown_begin s)"
| drained: "lf_shutdown s = Waiting \<Longrightarrow> Shutdown_done s = Some s' \<Longrightarrow> life_step s s'"
| expired: "lf_shutdown s = Waiting \<Longrightarrow> life_step s (Shutdown_expire s)"
| forced: "lf_shutdown s = ForceClosed \<Longrightarrow> Shutdown_forced s = Some s' \<Longrightarrow> life_step s s'"

inductive life_reach :: "nat option \<Rightarrow> bool \<Rightarrow> life \<Rightarrow> bool" for cap idle where
  start: "life_reach cap idle (newLife cap idle)"
| step: "life_reach cap idle s \<Longrightarrow> life_step s s' \<Longrightarrow> life_reach cap idle s'"

end
