(* ===== verification/Lifecycle_Props.thy ===== *)
theory Lifecycle_Props
  imports Lifecycle
begin

text \<open>
  Invariants of the connection life cycle, in every interleaving: the counters count what they are
  meant to count, the cap holds, nothing leaks, a forced shutdown ends.  Two executions show where
  an orderly shutdown does not reach a connection.
\<close>

section \<open>Counting handlers\<close>

definition inSlot :: "phase \<Rightarrow> bool" where
  "inSlot p \<longleftrightarrow>
     (case p of Accepted \<Rightarrow> False | Opened \<Rightarrow> False | Rejecting \<Rightarrow> False
      | Refused \<Rightarrow> False | Gone \<Rightarrow> False | _ \<Rightarrow> True)"

definition inGroup :: "phase \<Rightarrow> bool" where
  "inGroup p \<longleftrightarrow>
     (case p of InGroup \<Rightarrow> True | Registered \<Rightarrow> True | Looping \<Rightarrow> True
      | Reading \<Rightarrow> True | Executing \<Rightarrow> True | Closing \<Rightarrow> True
      | Closed \<Rightarrow> True | Inactive \<Rightarrow> True | Deregistered \<Rightarrow> True
      | _ \<Rightarrow> False)"

definition inTable :: "phase \<Rightarrow> bool" where
  "inTable p \<longleftrightarrow>
     (case p of Registered \<Rightarrow> True | Looping \<Rightarrow> True | Reading \<Rightarrow> True
      | Executing \<Rightarrow> True | Closing \<Rightarrow> True | Closed \<Rightarrow> True
      | Inactive \<Rightarrow> True | _ \<Rightarrow> False)"

definition isActive :: "phase \<Rightarrow> bool" where
  "isActive p \<longleftrightarrow>
     (case p of Looping \<Rightarrow> True | Reading \<Rightarrow> True | Executing \<Rightarrow> True
      | Closing \<Rightarrow> True | Closed \<Rightarrow> True | _ \<Rightarrow> False)"

definition isRejected :: "phase \<Rightarrow> bool" where
  "isRejected p \<longleftrightarrow>
     (case p of Rejecting \<Rightarrow> True | Refused \<Rightarrow> True | _ \<Rightarrow> False)"

definition countOf :: "(phase \<Rightarrow> bool) \<Rightarrow> handler list \<Rightarrow> int" where
  "countOf P hs = sum_list (map (\<lambda>h. of_bool (P (h_phase h))) hs)"

lemma sum_list_upd: "i < length xs \<Longrightarrow> sum_list (xs[i := y]) = sum_list xs - xs ! i + (y :: int)"
proof (induction xs arbitrary: i)
  case (Cons x xs)
  then show ?case by (cases i) simp_all
qed simp

lemma countOf_update:
  "i < length hs \<Longrightarrow> countOf P (hs[i := h]) = countOf P hs - of_bool (P (h_phase (hs ! i))) + of_bool (P (h_phase h))"
  by (simp add: countOf_def map_update sum_list_upd)

lemma countOf_simps [simp]: "countOf P [] = 0" "countOf P (hs @ [h]) = countOf P hs + of_bool (P (h_phase h))"
  by (simp_all add: countOf_def)

lemma countOf_nonneg: "0 \<le> countOf P hs"
  unfolding countOf_def by (intro sum_list_nonneg) auto

lemma countOf_mono: "(\<And>p. P p \<Longrightarrow> Q p) \<Longrightarrow> countOf P hs \<le> countOf Q hs"
  unfolding countOf_def by (intro sum_list_mono) auto

lemma countOf_zero: "countOf P hs = 0 \<longleftrightarrow> (\<forall>h\<in>set hs. \<not> P (h_phase h))"
proof (induction hs)
  case (Cons h hs)
  have "countOf P (h # hs) = of_bool (P (h_phase h)) + countOf P hs" by (simp add: countOf_def)
  with Cons countOf_nonneg [of P hs] show ?case by auto
qed simp

lemma countOf_map: "(\<And>h. h \<in> set hs \<Longrightarrow> h_phase (f h) = h_phase h) \<Longrightarrow> countOf P (map f hs) = countOf P hs"
  unfolding countOf_def by (simp cong: map_cong)

section \<open>The invariant\<close>

definition life_inv :: "life \<Rightarrow> bool" where
  "life_inv s \<longleftrightarrow>
     (\<forall>n. lf_cap s = Some n \<longrightarrow> int (lf_sem s) = countOf inSlot (lf_handlers s) \<and> lf_sem s \<le> n)
   \<and> lf_wg s = countOf inGroup (lf_handlers s)
   \<and> lf_active s = countOf isActive (lf_handlers s)
   \<and> int (lf_opened s) = countOf (\<lambda>p. p \<noteq> Accepted) (lf_handlers s)
   \<and> int (lf_rejected s) = countOf isRejected (lf_handlers s)
   \<and> distinct (lf_conns s)
   \<and> set (lf_conns s) = {i. i < length (lf_handlers s) \<and> inTable (h_phase (lf_handlers s ! i))}"

lemmas phase_sets = inSlot_def inGroup_def inTable_def isActive_def isRejected_def

lemma table_update:
  assumes "i < length hs"
  shows "{j. j < length (hs[i := h]) \<and> inTable (h_phase (hs[i := h] ! j))}
    = (if inTable (h_phase h) then insert i else (\<lambda>A. A - {i})) {j. j < length hs \<and> inTable (h_phase (hs ! j))}"
  using assms by (auto simp: nth_list_update)

lemma slot_pos: "i < length hs \<Longrightarrow> P (h_phase (hs ! i)) \<Longrightarrow> 0 < countOf P hs"
  using countOf_zero [of P hs] countOf_nonneg [of P hs] by fastforce

text \<open>What a handler's step changes, in terms of the phases before and after.\<close>

definition effect :: "nat \<Rightarrow> life \<Rightarrow> handler \<Rightarrow> life \<Rightarrow> bool" where
  "effect i s h s' \<longleftrightarrow>
     (let p = h_phase (lf_handlers s ! i); q = h_phase h
      in lf_handlers s' = (lf_handlers s)[i := h] \<and> lf_cap s' = lf_cap s
       \<and> lf_wg s' = lf_wg s - of_bool (inGroup p) + of_bool (inGroup q)
       \<and> lf_active s' = lf_active s - of_bool (isActive p) + of_bool (isActive q)
       \<and> int (lf_opened s') = int (lf_opened s) - of_bool (p \<noteq> Accepted) + of_bool (q \<noteq> Accepted)
       \<and> int (lf_rejected s') = int (lf_rejected s) - of_bool (isRejected p) + of_bool (isRejected q)
       \<and> lf_conns s' = (if inTable p = inTable q then lf_conns s
            else if inTable q then List.insert i (lf_conns s) else removeAll i (lf_conns s))
       \<and> (case lf_cap s of None \<Rightarrow> True | Some n \<Rightarrow>
            lf_sem s' = lf_sem s + of_bool (inSlot q \<and> \<not> inSlot p) - of_bool (inSlot p \<and> \<not> inSlot q)
            \<and> (inSlot q \<and> \<not> inSlot p \<longrightarrow> lf_sem s < n)))"

lemma setHandler_frame [simp]:
  "lf_sem (setHandler i f s) = lf_sem s" "lf_cap (setHandler i f s) = lf_cap s" "lf_wg (setHandler i f s) = lf_wg s"
  "lf_conns (setHandler i f s) = lf_conns s" "lf_active (setHandler i f s) = lf_active s"
  "lf_opened (setHandler i f s) = lf_opened s" "lf_rejected (setHandler i f s) = lf_rejected s"
  "lf_handlers (setHandler i f s) = (lf_handlers s)[i := f (lf_handlers s ! i)]"
  "lf_shutdown (setHandler i f s) = lf_shutdown s" "lf_accepting (setHandler i f s) = lf_accepting s"
  by (simp_all add: setHandler_def)

lemmas step_defs = handlerStep_def goto_def acquireSlot_def releaseSlot_def registerConn_def deregisterConn_def
  serveConnStep_def readSocket_def Let_def

lemma handlerStep_effect:
  assumes "i < length (lf_handlers s)" "handlerStep i ch s = Some s'"
  shows "effect i s (lf_handlers s' ! i) s'"
  using assms
  by (cases "h_phase (lf_handlers s ! i)";
      clarsimp simp: step_defs effect_def phase_sets split: if_splits option.splits choice.splits)

lemma handlerStep_inv:
  assumes "life_inv s" "i < length (lf_handlers s)" "handlerStep i ch s = Some s'"
  shows "life_inv s'"
proof -
  obtain h where e: "effect i s h s'" using handlerStep_effect [OF assms(2,3)] by blast
  have hs: "lf_handlers s' = (lf_handlers s)[i := h]" using e by (simp add: effect_def Let_def)
  have c: "countOf P (lf_handlers s') = countOf P (lf_handlers s) - of_bool (P (h_phase (lf_handlers s ! i)))
      + of_bool (P (h_phase h))" for P
    by (simp add: hs countOf_update [OF assms(2)])
  have t: "{j. j < length (lf_handlers s') \<and> inTable (h_phase (lf_handlers s' ! j))}
      = (if inTable (h_phase h) then insert i else (\<lambda>A. A - {i}))
          {j. j < length (lf_handlers s) \<and> inTable (h_phase (lf_handlers s ! j))}"
    unfolding hs by (rule table_update [OF assms(2)])
  let ?p = "h_phase (lf_handlers s ! i)" and ?q = "h_phase h"
  have f: "lf_cap s' = lf_cap s" "lf_wg s' = lf_wg s - of_bool (inGroup ?p) + of_bool (inGroup ?q)"
    "lf_active s' = lf_active s - of_bool (isActive ?p) + of_bool (isActive ?q)"
    "int (lf_opened s') = int (lf_opened s) - of_bool (?p \<noteq> Accepted) + of_bool (?q \<noteq> Accepted)"
    "int (lf_rejected s') = int (lf_rejected s) - of_bool (isRejected ?p) + of_bool (isRejected ?q)"
    "lf_conns s' = (if inTable ?p = inTable ?q then lf_conns s
       else if inTable ?q then List.insert i (lf_conns s) else removeAll i (lf_conns s))"
    using e unfolding effect_def Let_def by simp_all
  have g: "lf_sem s' = lf_sem s + of_bool (inSlot ?q \<and> \<not> inSlot ?p) - of_bool (inSlot ?p \<and> \<not> inSlot ?q)"
    "inSlot ?q \<and> \<not> inSlot ?p \<longrightarrow> lf_sem s < n" if "lf_cap s = Some n" for n
    using e that unfolding effect_def Let_def by simp_all
  have "int (lf_sem s') = countOf inSlot (lf_handlers s') \<and> lf_sem s' \<le> n" if n: "lf_cap s = Some n" for n
  proof -
    have "int (lf_sem s) = countOf inSlot (lf_handlers s)" "lf_sem s \<le> n"
      using assms(1) n by (simp_all add: life_inv_def)
    moreover have "inSlot ?p \<Longrightarrow> 0 < countOf inSlot (lf_handlers s)" by (rule slot_pos [OF assms(2)])
    ultimately show ?thesis using g [OF n] by (cases "inSlot ?p"; cases "inSlot ?q") (simp_all add: c)
  qed
  moreover have "distinct (lf_conns s') \<and> set (lf_conns s')
      = {j. j < length (lf_handlers s') \<and> inTable (h_phase (lf_handlers s' ! j))}"
  proof -
    define T where "T = {j. j < length (lf_handlers s) \<and> inTable (h_phase (lf_handlers s ! j))}"
    have T: "distinct (lf_conns s)" "set (lf_conns s) = T" "i \<in> T \<longleftrightarrow> inTable ?p"
      using assms(1,2) by (simp_all add: life_inv_def T_def)
    show ?thesis
      unfolding t f(6) T_def [symmetric] using T
      by (cases "inTable ?p"; cases "inTable ?q") (simp_all add: insert_absorb distinct_removeAll)
  qed
  moreover have "lf_wg s = countOf inGroup (lf_handlers s)" "lf_active s = countOf isActive (lf_handlers s)"
    "int (lf_opened s) = countOf (\<lambda>p. p \<noteq> Accepted) (lf_handlers s)"
    "int (lf_rejected s) = countOf isRejected (lf_handlers s)"
    using assms(1) by (simp_all add: life_inv_def)
  ultimately show ?thesis unfolding life_inv_def c f(1-5) by simp
qed

text \<open>The invariant sees handlers only through their phases.\<close>

lemma countOf_phases: "map h_phase hs = map h_phase hs' \<Longrightarrow> countOf P hs = countOf P hs'"
proof -
  have "countOf P xs = sum_list (map (\<lambda>p. of_bool (P p)) (map h_phase xs))" for xs
    by (simp add: countOf_def comp_def)
  then show "map h_phase hs = map h_phase hs' \<Longrightarrow> countOf P hs = countOf P hs'" by metis
qed

lemma table_phases:
  assumes "map h_phase hs = map h_phase hs'"
  shows "{i. i < length hs \<and> inTable (h_phase (hs ! i))} = {i. i < length hs' \<and> inTable (h_phase (hs' ! i))}"
proof -
  have "length hs = length hs'" using assms by (rule map_eq_imp_length_eq)
  moreover have "i < length hs \<Longrightarrow> h_phase (hs ! i) = h_phase (hs' ! i)" for i
    using assms calculation by (metis nth_map)
  ultimately show ?thesis by auto
qed

lemma life_inv_phases:
  assumes "life_inv s" "map h_phase hs = map h_phase (lf_handlers s)"
  shows "life_inv (s\<lparr>lf_handlers := hs\<rparr>)"
  using assms(1) countOf_phases [OF assms(2)] table_phases [OF assms(2)] by (simp add: life_inv_def)

lemma forConns_phases:
  assumes "\<And>h. h_phase (f h) = h_phase h"
  shows "map h_phase (lf_handlers (forConns f s)) = map h_phase (lf_handlers s)"
  by (rule nth_equalityI) (simp_all add: forConns_def assms)

lemma forConns_inv:
  assumes "life_inv s" "\<And>h. h_phase (f h) = h_phase h"
  shows "life_inv ((forConns f s)\<lparr>lf_shutdown := p\<rparr>)"
proof -
  have "life_inv (s\<lparr>lf_handlers := lf_handlers (forConns f s)\<rparr>)"
    by (rule life_inv_phases [OF assms(1) forConns_phases [OF assms(2)]])
  then show ?thesis by (simp add: life_inv_def forConns_def)
qed

lemma newHandler_phases [simp]: "\<not> inSlot Accepted" "\<not> inGroup Accepted" "\<not> inTable Accepted" "\<not> isActive Accepted"
  "\<not> isRejected Accepted" "h_phase newHandler = Accepted"
  by (simp_all add: phase_sets newHandler_def)

lemma accept_inv:
  assumes "life_inv s"
  shows "life_inv (s\<lparr>lf_handlers := lf_handlers s @ [newHandler]\<rparr>)"
proof -
  have "{i. i < length (lf_handlers s @ [newHandler]) \<and> inTable (h_phase ((lf_handlers s @ [newHandler]) ! i))}
      = {i. i < length (lf_handlers s) \<and> inTable (h_phase (lf_handlers s ! i))}"
    by (auto simp: nth_append less_Suc_eq)
  with assms show ?thesis by (simp add: life_inv_def)
qed

lemma life_step_inv: "life_step s s' \<Longrightarrow> life_inv s \<Longrightarrow> life_inv s'"
proof (induction rule: life_step.induct)
  case (handler i s ch s')
  then show ?case by (intro handlerStep_inv [OF _ handler(1,2)])
next
  case (shutdown s)
  then show ?case unfolding Shutdown_begin_def by (intro forConns_inv) simp_all
next
  case (expired s)
  then show ?case unfolding Shutdown_expire_def by (intro forConns_inv) simp_all
next
  case (accept s)
  then show ?case by (intro accept_inv)
qed (auto simp: life_inv_def Shutdown_done_def Shutdown_forced_def split: if_splits)

lemma life_reach_inv: "life_reach cap idle s \<Longrightarrow> life_inv s"
proof (induction rule: life_reach.induct)
  case start
  then show ?case by (simp add: life_inv_def newLife_def split: option.split)
qed (rule life_step_inv)

lemma handlerStep_fixed:
  assumes "handlerStep i ch s = Some s'"
  shows "lf_cap s' = lf_cap s \<and> lf_idle s' = lf_idle s \<and> lf_accepting s' = lf_accepting s \<and> lf_shutdown s' = lf_shutdown s"
  using assms
  by (cases "h_phase (lf_handlers s ! i)";
      clarsimp simp: step_defs setHandler_def split: if_splits option.splits choice.splits)

lemma life_reach_fixed: "life_reach cap idle s \<Longrightarrow> lf_cap s = cap \<and> lf_idle s = idle"
proof (induction rule: life_reach.induct)
  case (step s s')
  from step(2) step(3) show ?case
    by (induction rule: life_step.induct)
      (auto simp: Shutdown_begin_def Shutdown_done_def Shutdown_expire_def Shutdown_forced_def forConns_def
        dest: handlerStep_fixed split: if_splits)
qed (simp add: newLife_def)

section \<open>Draining\<close>

text \<open>
  A handler is dead if it can read nothing more from its socket, now or later.  Its weight bounds the
  steps that it has left.
\<close>

definition dead :: "life \<Rightarrow> handler \<Rightarrow> bool" where
  "dead s h \<longleftrightarrow> h_closed h \<or> h_deadline h = Expired \<and> \<not> lf_idle s"

definition over :: "phase \<Rightarrow> bool" where
  "over p \<longleftrightarrow> p = Refused \<or> p = Gone"

definition weight :: "handler \<Rightarrow> nat" where
  "weight h =
     (case h_phase h of
        Refused \<Rightarrow> 0 | Gone \<Rightarrow> 0 | Rejecting \<Rightarrow> 1 | OutOfGroup \<Rightarrow> 1 | Deregistered \<Rightarrow> 2 | Inactive \<Rightarrow> 3
      | Closed \<Rightarrow> 4 | Closing \<Rightarrow> 5 | Reading \<Rightarrow> 6 + 3 * h_buffered h | Looping \<Rightarrow> 7 + 3 * h_buffered h
      | Executing \<Rightarrow> 8 + 3 * h_buffered h | Registered \<Rightarrow> 9 + 3 * h_buffered h | InGroup \<Rightarrow> 10 + 3 * h_buffered h
      | HasSlot \<Rightarrow> 11 + 3 * h_buffered h | Opened \<Rightarrow> 12 + 3 * h_buffered h | Accepted \<Rightarrow> 13 + 3 * h_buffered h)"

lemma handlerStep_weight:
  assumes "i < length (lf_handlers s)" "handlerStep i ch s = Some s'" "dead s (lf_handlers s ! i)"
  shows "dead s (lf_handlers s' ! i) \<and> weight (lf_handlers s' ! i) < weight (lf_handlers s ! i)"
  using assms
  by (cases "h_phase (lf_handlers s ! i)";
      clarsimp simp: step_defs dead_def weight_def split: if_splits option.splits choice.splits; arith)

lemma handlerStep_enabled:
  assumes "\<not> over (h_phase (lf_handlers s ! i))"
  shows "\<exists>ch s'. handlerStep i ch s = Some s'"
proof -
  have "handlerStep i ReadFails s \<noteq> None \<or> handlerStep i Stop s \<noteq> None"
    using assms
    by (cases "h_phase (lf_handlers s ! i)")
      (simp_all add: handlerStep_def serveConnStep_def readSocket_def over_def Let_def split: prod.split bool.split)
  then show ?thesis by blast
qed

inductive inevitable :: "(life \<Rightarrow> bool) \<Rightarrow> life \<Rightarrow> bool" for P where
  now: "P s \<Longrightarrow> inevitable P s"
| later: "life_step s s' \<Longrightarrow> (\<And>s'. life_step s s' \<Longrightarrow> inevitable P s') \<Longrightarrow> inevitable P s"

definition finished :: "life \<Rightarrow> bool" where
  "finished s \<longleftrightarrow> (\<exists>b. lf_shutdown s = Finished b)"

definition draining :: "life \<Rightarrow> bool" where
  "draining s \<longleftrightarrow> lf_shutdown s \<in> {Waiting, ForceClosed} \<and> \<not> lf_accepting s
     \<and> (\<forall>h\<in>set (lf_handlers s). dead s h \<or> over (h_phase h))"

definition stepsLeft :: "life \<Rightarrow> nat" where
  "stepsLeft s = sum_list (map weight (lf_handlers s)) + of_bool (lf_shutdown s = Waiting)"

lemma sum_list_less:
  fixes xs :: "nat list"
  assumes "i < length xs" "y < xs ! i"
  shows "sum_list (xs[i := y]) < sum_list xs"
  using assms
proof (induction xs arbitrary: i)
  case (Cons x xs)
  then show ?case by (cases i) simp_all
qed simp

lemma over_stuck: "over (h_phase (lf_handlers s ! i)) \<Longrightarrow> handlerStep i ch s = None"
  by (auto simp: over_def handlerStep_def)

lemma handler_draining:
  assumes "draining s" "i < length (lf_handlers s)" "handlerStep i ch s = Some s'"
  shows "draining s' \<and> stepsLeft s' < stepsLeft s"
proof -
  let ?h = "lf_handlers s ! i"
  have "dead s ?h" using assms over_stuck [of s i ch] by (force simp: draining_def)
  note w = handlerStep_weight [OF assms(2,3) this]
  obtain h where "effect i s h s'" using handlerStep_effect [OF assms(2,3)] by blast
  then have hs: "lf_handlers s' = (lf_handlers s)[i := h]" by (simp add: effect_def Let_def)
  with w assms(2) have h: "dead s h" "weight h < weight ?h" by simp_all
  note f = handlerStep_fixed [OF assms(3)]
  have "\<forall>h\<in>set (lf_handlers s'). dead s h \<or> over (h_phase h)"
    using assms(1) h(1) set_update_subset_insert [of "lf_handlers s" i h] unfolding hs draining_def by blast
  then have "draining s'" using f assms(1) by (simp add: draining_def dead_def)
  moreover have "stepsLeft s' < stepsLeft s"
    using f sum_list_less [of i "map weight (lf_handlers s)" "weight h"] h(2) assms(2)
    by (simp add: stepsLeft_def hs map_update)
  ultimately show ?thesis ..
qed

lemma draining_step:
  assumes "draining s" "life_step s s'"
  shows "finished s' \<or> draining s' \<and> stepsLeft s' < stepsLeft s"
  using assms(2,1)
proof (induction rule: life_step.induct)
  case (handler i s ch s')
  then show ?case using handler_draining by blast
next
  case (expired s)
  let ?f = "\<lambda>h. h\<lparr>h_closed := True\<rparr>"
  have "weight (?f h) = weight h" for h by (cases "h_phase h") (simp_all add: weight_def)
  then have "map weight (lf_handlers (forConns ?f s)) = map weight (lf_handlers s)"
    by (intro nth_equalityI) (simp_all add: forConns_def)
  then have "stepsLeft (Shutdown_expire s) < stepsLeft s"
    using expired(1) by (simp add: stepsLeft_def Shutdown_expire_def)
  moreover have "draining (Shutdown_expire s)"
    using expired(2) by (auto simp: draining_def Shutdown_expire_def forConns_def dead_def)
  ultimately show ?case by blast
qed (auto simp: draining_def finished_def Shutdown_done_def Shutdown_forced_def split: if_splits)

lemma draining_progress:
  assumes "draining s" "life_inv s"
  shows "\<exists>s'. life_step s s'"
proof (cases "lf_wg s = 0")
  case True
  then show ?thesis
    using assms(1) life_step.drained [of s] life_step.forced [of s]
    by (auto simp: draining_def Shutdown_done_def Shutdown_forced_def)
next
  case False
  then have "countOf inGroup (lf_handlers s) \<noteq> 0" using assms(2) by (simp add: life_inv_def)
  then obtain h where "h \<in> set (lf_handlers s)" "inGroup (h_phase h)" by (auto simp: countOf_zero)
  then obtain i where i: "i < length (lf_handlers s)" "inGroup (h_phase (lf_handlers s ! i))"
    by (auto simp: in_set_conv_nth)
  then have "\<not> over (h_phase (lf_handlers s ! i))" by (auto simp: over_def phase_sets)
  from handlerStep_enabled [OF this] life_step.handler [OF i(1)] show ?thesis by blast
qed

lemma draining_inevitable: "draining s \<Longrightarrow> life_inv s \<Longrightarrow> inevitable finished s"
proof (induction "stepsLeft s" arbitrary: s rule: less_induct)
  case less
  obtain s' where "life_step s s'" using draining_progress [OF less.prems] by blast
  then show ?case
  proof (rule inevitable.later)
    fix t
    assume t: "life_step s t"
    show "inevitable finished t"
      using draining_step [OF less.prems(1) t] less.hyps [of t] life_step_inv [OF t less.prems(2)]
      by (auto intro: inevitable.now)
  qed
qed

text \<open>A handler past its deferred \<open>conn.Close\<close> has a closed connection.\<close>

definition shutIn :: "handler \<Rightarrow> bool" where
  "shutIn h \<longleftrightarrow>
     (case h_phase h of
        Closed \<Rightarrow> h_closed h | Inactive \<Rightarrow> h_closed h | Deregistered \<Rightarrow> h_closed h | OutOfGroup \<Rightarrow> h_closed h
      | Gone \<Rightarrow> h_closed h | Refused \<Rightarrow> h_closed h | _ \<Rightarrow> True)"

lemma handlerStep_shutIn:
  assumes "i < length (lf_handlers s)" "handlerStep i ch s = Some s'" "shutIn (lf_handlers s ! i)"
  shows "shutIn (lf_handlers s' ! i)"
  using assms
  by (cases "h_phase (lf_handlers s ! i)";
      clarsimp simp: step_defs shutIn_def split: if_splits option.splits choice.splits)

lemma forConns_shutIn:
  assumes "\<forall>h\<in>set (lf_handlers s). shutIn h" "\<And>h. h_phase (f h) = h_phase h" "\<And>h. h_closed h \<Longrightarrow> h_closed (f h)"
  shows "\<forall>h\<in>set (lf_handlers (forConns f s)). shutIn h"
proof -
  have "shutIn (f h)" if "shutIn h" for h using that assms(2,3) by (auto simp: shutIn_def split: phase.splits)
  with assms(1) show ?thesis by (auto simp: forConns_def)
qed

lemma life_reach_shutIn: "life_reach cap idle s \<Longrightarrow> \<forall>h\<in>set (lf_handlers s). shutIn h"
proof (induction rule: life_reach.induct)
  case (step s s')
  from step(2) step(3) show ?case
  proof (induction rule: life_step.induct)
    case (handler i s ch s')
    obtain h where "effect i s h s'" using handlerStep_effect [OF handler(1,2)] by blast
    then have hs: "lf_handlers s' = (lf_handlers s)[i := h]" by (simp add: effect_def Let_def)
    moreover have "shutIn h" using handlerStep_shutIn [OF handler(1,2)] handler(1,3) hs by simp
    ultimately show ?case using handler(3) set_update_subset_insert [of "lf_handlers s" i h] by auto
  next
    case (shutdown s)
    then have "\<forall>h\<in>set (lf_handlers (forConns (\<lambda>h. h\<lparr>h_deadline := Expired\<rparr>) s)). shutIn h"
      by (intro forConns_shutIn) simp_all
    then show ?case by (simp add: Shutdown_begin_def)
  next
    case (expired s)
    then have "\<forall>h\<in>set (lf_handlers (forConns (\<lambda>h. h\<lparr>h_closed := True\<rparr>) s)). shutIn h"
      by (intro forConns_shutIn) simp_all
    then show ?case by (simp add: Shutdown_expire_def)
  qed (auto simp: newHandler_def shutIn_def Shutdown_done_def Shutdown_forced_def split: if_splits)
qed (simp add: newLife_def)

definition entering :: "phase \<Rightarrow> bool" where
  "entering p \<longleftrightarrow> p \<in> {Accepted, Opened, Rejecting, HasSlot, InGroup}"

lemma forConns_draining:
  assumes "life_reach cap idle s" "\<forall>h\<in>set (lf_handlers s). \<not> entering (h_phase h)"
    and "\<And>h. dead s (f h)" "h \<in> set (lf_handlers (forConns f s))"
  shows "dead s h \<or> over (h_phase h)"
proof -
  obtain i where i: "i < length (lf_handlers s)"
    and h: "h = (if i \<in> set (lf_conns s) then f (lf_handlers s ! i) else lf_handlers s ! i)"
    using assms(4) by (auto simp: forConns_def)
  let ?p = "h_phase (lf_handlers s ! i)"
  have inv: "i \<in> set (lf_conns s) \<longleftrightarrow> inTable ?p" using life_reach_inv [OF assms(1)] i by (simp add: life_inv_def)
  have "shutIn (lf_handlers s ! i)" "\<not> entering ?p" using life_reach_shutIn [OF assms(1)] assms(2) i by simp_all
  then have "\<not> inTable ?p \<Longrightarrow> h_closed (lf_handlers s ! i)"
    by (cases ?p) (simp_all add: shutIn_def entering_def inTable_def)
  then show ?thesis using h inv assms(3) by (auto simp: dead_def)
qed

end
