(* ===== verification/Lifecycle_Properties.thy ===== *)
theory Lifecycle_Properties
  imports Lifecycle_Props
begin

text \<open>
  The theorems about the life cycle of connections, with executions of the model as witnesses.
\<close>

section \<open>Executions\<close>

datatype action = AAccept | AStop | AHandler nat choice | AShutdown | ADrained | AExpire | AForced

definition perform :: "action \<Rightarrow> life \<Rightarrow> life option" where
  "perform a s =
     (case a of
        AAccept \<Rightarrow> if lf_accepting s then Some (s\<lparr>lf_handlers := lf_handlers s @ [newHandler]\<rparr>) else None
      | AStop \<Rightarrow> if lf_accepting s then Some (s\<lparr>lf_accepting := False\<rparr>) else None
      | AHandler i ch \<Rightarrow> if i < length (lf_handlers s) then handlerStep i ch s else None
      | AShutdown \<Rightarrow> if \<not> lf_accepting s \<and> lf_shutdown s = NotStarted then Some (Shutdown_begin s) else None
      | ADrained \<Rightarrow> if lf_shutdown s = Waiting then Shutdown_done s else None
      | AExpire \<Rightarrow> if lf_shutdown s = Waiting then Some (Shutdown_expire s) else None
      | AForced \<Rightarrow> if lf_shutdown s = ForceClosed then Shutdown_forced s else None)"

fun performs :: "action list \<Rightarrow> life \<Rightarrow> life option" where
  "performs [] s = Some s"
| "performs (a # as) s = (case perform a s of None \<Rightarrow> None | Some s \<Rightarrow> performs as s)"

lemma perform_step: "perform a s = Some s' \<Longrightarrow> life_step s s'"
  by (cases a) (auto simp: perform_def intro: life_step.intros split: if_splits)

lemma performs_reach: "performs as s = Some s' \<Longrightarrow> life_reach cap idle s \<Longrightarrow> life_reach cap idle s'"
proof (induction as arbitrary: s)
  case (Cons a as)
  then obtain t where t: "perform a s = Some t" "performs as t = Some s'" by (auto split: option.splits)
  show ?case by (rule Cons.IH [OF t(2) life_reach.step [OF Cons.prems(2) perform_step [OF t(1)]]])
qed simp

lemma performs_newLife:
  assumes "performs as (newLife cap idle) \<noteq> None"
  shows "life_reach cap idle (the (performs as (newLife cap idle)))"
proof -
  obtain s where "performs as (newLife cap idle) = Some s" using assms by blast
  with performs_reach [OF this life_reach.start] show ?thesis by simp
qed

text \<open>A handler that runs up to its first read; the choices do not matter before that.\<close>

definition enter :: "nat \<Rightarrow> action list" where
  "enter i = replicate 6 (AHandler i GoOn)"

definition demo_life :: life where
  "demo_life = the (performs (AAccept # AAccept # enter 0 @ [AHandler 1 GoOn, AHandler 1 GoOn]) (newLife (Some 1) True))"

lemma demo_life_reach: "life_reach (Some 1) True demo_life"
proof -
  have "performs (AAccept # AAccept # enter 0 @ [AHandler 1 GoOn, AHandler 1 GoOn]) (newLife (Some 1) True) \<noteq> None"
    by code_simp
  then show ?thesis unfolding demo_life_def by (rule performs_newLife)
qed

section \<open>Properties\<close>

text \<open>
  C13 (safety).  With a connection cap, at most that many connections are past admission at any time, in
  every interleaving of handlers, shutdown and accept loop; the others have been or will be refused.
\<close>

theorem connection_cap:
  assumes "life_reach (Some n) idle s"
  shows "countOf inSlot (lf_handlers s) \<le> int n \<and> lf_active s \<le> int n"
proof -
  have inv: "life_inv s" "lf_cap s = Some n"
    using life_reach_inv [OF assms] life_reach_fixed [OF assms] by simp_all
  then have "countOf inSlot (lf_handlers s) \<le> int n" "lf_active s = countOf isActive (lf_handlers s)"
    by (auto simp: life_inv_def)
  moreover have "countOf isActive (lf_handlers s) \<le> countOf inSlot (lf_handlers s)"
    by (rule countOf_mono) (simp add: phase_sets split: phase.splits)
  ultimately show ?thesis by simp
qed

theorem connection_cap_witness: "lf_active demo_life \<le> 1 \<and> map h_phase (lf_handlers demo_life) = [Reading, Rejecting]"
proof -
  have "map h_phase (lf_handlers demo_life) = [Reading, Rejecting]" by code_simp
  with connection_cap [OF demo_life_reach] show ?thesis by simp
qed







text \<open>
  C32 (safety).  An orderly shutdown does not reach every connection.  A handler that was executing a
  command when \<open>Shutdown\<close> expired its deadline replaces that deadline with a fresh idle deadline and
  reads on; and a connection that was accepted but not yet registered when \<open>Shutdown\<close> looked is
  served after \<open>Shutdown\<close> has returned without an error.
\<close>

theorem shutdown_misses_connections:
  "(\<exists>s h. life_reach None True s \<and> lf_shutdown s = Waiting \<and> lf_handlers s = [h]
      \<and> h_phase h = Reading \<and> h_deadline h = IdleDeadline \<and> \<not> h_closed h)
   \<and> (\<exists>s h. life_reach None False s \<and> lf_shutdown s = Finished True \<and> lf_handlers s = [h]
      \<and> h_phase h = Reading \<and> h_deadline h = NoDeadline \<and> \<not> h_closed h)"
proof -
  let ?h = "\<lambda>d. \<lparr>h_phase = Reading, h_deadline = d, h_closed = False, h_buffered = 0\<rparr>"
  let ?a = "AAccept # enter 0 @ [AHandler 0 (ReadCmd 0), AStop, AShutdown, AHandler 0 GoOn, AHandler 0 GoOn]"
  let ?b = "[AAccept, AStop, AShutdown, ADrained] @ enter 0"
  have a: "performs ?a (newLife None True) \<noteq> None" "lf_shutdown (the (performs ?a (newLife None True))) = Waiting"
    "lf_handlers (the (performs ?a (newLife None True))) = [?h IdleDeadline]" by code_simp+
  have b: "performs ?b (newLife None False) \<noteq> None" "lf_shutdown (the (performs ?b (newLife None False))) = Finished True"
    "lf_handlers (the (performs ?b (newLife None False))) = [?h NoDeadline]" by code_simp+
  have "life_reach None True (the (performs ?a (newLife None True)))" by (rule performs_newLife [OF a(1)])
  moreover have "life_reach None False (the (performs ?b (newLife None False)))" by (rule performs_newLife [OF b(1)])
  ultimately show ?thesis using a(2,3) b(2,3) by force
qed

end
