(* ===== verification/Ops.thy ===== *)
theory Ops
  imports Server RunConfig
begin

text \<open>
  The process around the server, \<open>cmd/minikv/main.go\<close>: finding the configuration file, wiring store
  and server from it, the listener, the sweeper goroutine, and the two diagnostic HTTP handlers.
  The operating system (files, sockets, key pairs) is a parameter of the definitions.
\<close>

section \<open>Configuration and wiring\<close>

definition defaultConfigPath :: string where
  "defaultConfigPath = ''minikv.conf''"

datatype main_error = DefaultNotFound | LoadFailed load_error

text \<open>\<open>path\<close> is the value of the \<open>-config\<close> flag and \<open>fs\<close> the file system.\<close>

definition loadConfig :: "string \<Rightarrow> (string \<Rightarrow> conf_file) \<Rightarrow> main_error + RunConfig" where
  "loadConfig path fs =
     (let explicit = path \<noteq> [];
          resolved = (if \<not> explicit then defaultConfigPath else path)
      in case Load resolved (fs resolved) of
           Inl e \<Rightarrow> if e = OpenError True \<and> \<not> explicit then Inl DefaultNotFound else Inl (LoadFailed e)
         | Inr cfg \<Rightarrow> Inr cfg)"

definition storeConfig :: "RunConfig \<Rightarrow> Config" where
  "storeConfig cfg =
     \<lparr>cf_MaxValueBytes = cg_MaxValueBytes cfg, cf_MaxMemoryBytes = cg_MaxMemoryBytes cfg,
      cf_ItemOverheadBytes = cg_ItemOverheadBytes cfg, cf_Shards = cg_Shards cfg\<rparr>"

definition startServer :: "RunConfig \<Rightarrow> time \<Rightarrow> Server" where
  "startServer cfg now =
     WithMaxConnections (cg_MaxConnections cfg)
       (WithIdleTimeout (cg_IdleTimeout cfg)
         (WithAuthToken (cg_AuthToken cfg) (Server_New (New (storeConfig cfg)) now)))"

text \<open>
  \<open>listen\<close>: whether \<open>LoadX509KeyPair\<close>, \<open>net.Listen\<close> and \<open>tls.Listen\<close> succeed is up to the system;
  the result is the scheme of the listener.
\<close>

datatype listen_error = KeyPairError | ListenError

definition listen ::
  "(string \<Rightarrow> string \<Rightarrow> bool) \<Rightarrow> (string \<Rightarrow> bool) \<Rightarrow> (string \<Rightarrow> bool) \<Rightarrow> RunConfig \<Rightarrow> listen_error + string" where
  "listen loadPair netListen tlsListen cfg =
     (if \<not> TLSEnabled cfg then if netListen (cg_Addr cfg) then Inr ''tcp'' else Inl ListenError
      else if \<not> loadPair (cg_TLSCert cfg) (cg_TLSKey cfg) then Inl KeyPairError
      else if tlsListen (cg_Addr cfg) then Inr ''tls'' else Inl ListenError)"

section \<open>The accept loop and the exit status\<close>

text \<open>
  What \<open>Accept\<close> returns: a connection, or an error, where the flag tells that the listener was closed or
  the context cancelled.  After such an error the loop ends and \<open>run\<close> shuts the server down; after any
  other it returns the error at once.  \<open>None\<close>: the loop is still waiting.
\<close>

datatype accept_event = Accepts conn | AcceptFails bool

fun acceptLoop :: "accept_event list \<Rightarrow> conn list \<Rightarrow> (conn list \<times> bool) option" where
  "acceptLoop [] conns = None"
| "acceptLoop (Accepts cn # evs) conns = acceptLoop evs (conns @ [cn])"
| "acceptLoop (AcceptFails shut # evs) conns = Some (conns, shut)"

datatype run_failure = ListenFailed listen_error | AcceptFailed

definition runMain ::
  "(string \<Rightarrow> string \<Rightarrow> bool) \<Rightarrow> (string \<Rightarrow> bool) \<Rightarrow> (string \<Rightarrow> bool) \<Rightarrow> RunConfig \<Rightarrow> accept_event list
     \<Rightarrow> (run_failure + conn list) option" where
  "runMain loadPair netListen tlsListen cfg evs =
     (case listen loadPair netListen tlsListen cfg of
        Inl e \<Rightarrow> Some (Inl (ListenFailed e))
      | Inr scheme \<Rightarrow>
          (case acceptLoop evs [] of
             None \<Rightarrow> None
           | Some (conns, shut) \<Rightarrow> Some (if shut then Inr conns else Inl AcceptFailed)))"

definition mainStatus ::
  "string \<Rightarrow> (string \<Rightarrow> conf_file) \<Rightarrow> (string \<Rightarrow> string \<Rightarrow> bool) \<Rightarrow> (string \<Rightarrow> bool) \<Rightarrow> (string \<Rightarrow> bool) \<Rightarrow> accept_event list
     \<Rightarrow> int option" where
  "mainStatus path fs loadPair netListen tlsListen evs =
     (case loadConfig path fs of
        Inl e \<Rightarrow> Some 1
      | Inr cfg \<Rightarrow>
          map_option (\<lambda>r. case r of Inl e \<Rightarrow> 1 | Inr conns \<Rightarrow> 0) (runMain loadPair netListen tlsListen cfg evs))"

section \<open>The sweeper\<close>

text \<open>
  What the \<open>select\<close> of the sweeper receives: a tick, with the iteration order and the clock of that
  sweep, or the end of the context.  \<open>time.NewTicker\<close> panics on a negative interval; the result is
  then \<open>None\<close>.
\<close>

datatype sweep_event = Tick range_order "nat \<Rightarrow> time" | CtxDone

fun sweeps :: "sweep_event list \<Rightarrow> Store \<Rightarrow> Store" where
  "sweeps [] kv = kv"
| "sweeps (CtxDone # evs) kv = kv"
| "sweeps (Tick ord clock # evs) kv = sweeps evs (snd (Store_CleanupExpired ord clock kv))"

definition cleanupExpired :: "duration \<Rightarrow> sweep_event list \<Rightarrow> Store \<Rightarrow> Store option" where
  "cleanupExpired interval evs kv =
     (if interval = 0 then Some kv
      else if interval < 0 then None
      else Some (sweeps evs kv))"

section \<open>Formatting\<close>

text \<open>The verb \<open>%.pf\<close>: the exact value, rounded to \<open>p\<close> decimals, ties to even.\<close>

definition padZeros :: "nat \<Rightarrow> string \<Rightarrow> string" where
  "padZeros p s = replicate (p - length s) (CHR ''0'') @ s"

definition fmtFixed :: "nat \<Rightarrow> rat \<Rightarrow> string" where
  "fmtFixed p x =
     (let n = roundEven (\<bar>x\<bar> * 10 ^ p)
      in (if x < 0 then ''-'' else []) @ formatInt (n div 10 ^ p)
         @ (if p = 0 then [] else CHR ''.'' # padZeros p (formatInt (n mod 10 ^ p))))"

text \<open>\<open>Duration.Round\<close>, rounding half away from zero and saturating.\<close>

definition durationRound :: "duration \<Rightarrow> duration \<Rightarrow> duration" where
  "durationRound d m =
     (if m \<le> 0 then d
      else let r = \<bar>d\<bar> mod m
           in if d < 0
              then if 2 * r < m then d + r
                   else let d1 = go_int (d - m + r) in if d1 < d then d1 else - (2 ^ 63)
              else if 2 * r < m then d - r
                   else let d1 = go_int (d + m - r) in if d < d1 then d1 else maxInt64)"

text \<open>\<open>Duration.String\<close>; \<open>fmtFrac v p\<close> is the fraction \<open>v mod 10^p\<close> without trailing zeros.\<close>

definition fmtFrac :: "int \<Rightarrow> nat \<Rightarrow> string" where
  "fmtFrac v p =
     (let ds = rev (dropWhile (\<lambda>c. c = CHR ''0'') (rev (padZeros p (formatInt (v mod 10 ^ p)))))
      in if ds = [] then [] else CHR ''.'' # ds)"

definition durationString :: "duration \<Rightarrow> string" where
  "durationString d =
     (let u = \<bar>d\<bar>;
          sec = u div 10 ^ 9; mins = sec div 60; hours = mins div 60
      in (if d < 0 then ''-'' else [])
         @ (if u = 0 then ''0s''
            else if u < 10 ^ 3 then formatInt u @ ''ns''
            else if u < 10 ^ 6 then formatInt (u div 10 ^ 3) @ fmtFrac u 3 @ [CHR 0xC2, CHR 0xB5, CHR ''s'']
            else if u < 10 ^ 9 then formatInt (u div 10 ^ 6) @ fmtFrac u 6 @ ''ms''
            else (if hours > 0 then formatInt hours @ ''h'' else [])
              @ (if mins > 0 then formatInt (mins mod 60) @ ''m'' else [])
              @ formatInt (sec mod 60) @ fmtFrac u 9 @ ''s''))"

section \<open>Diagnostics\<close>

record response =
  rs_status :: int
  rs_body :: string

definition healthzHandler :: response where
  "healthzHandler = \<lparr>rs_status = 200, rs_body = ''ok'' @ [LF]\<rparr>"

text \<open>A check passes or fails, with its line of the report.\<close>

datatype check = Pass string | Fail string

definition memoryCheck :: "Stats \<Rightarrow> check" where
  "memoryCheck st =
     (let pressure = (if 0 < ss_MaxMemoryBytes st
                      then fl (fl (of_int (ss_MemoryBytes st)) / fl (of_int (ss_MaxMemoryBytes st))) else 0);
          percent = fmtFixed 0 (fl (pressure * 100))
      in if fl (95 / 100) < pressure then Fail (''memory_pressure: high ('' @ percent @ ''% of budget)'')
         else Pass (''memory_pressure: ok ('' @ percent @ ''% of budget)''))"

definition minMax :: "int \<Rightarrow> int list \<Rightarrow> int \<times> int" where
  "minMax n ns = foldl (\<lambda>(lo, hi) n. (if n < lo then n else lo, if hi < n then n else hi)) (n, n) ns"

text \<open>Indexing an empty \<open>ItemsPerShard\<close> would panic.\<close>

definition balanceCheck :: "Stats \<Rightarrow> check option" where
  "balanceCheck st =
     (if 100 \<le> ss_Items st then
        case ss_ItemsPerShard st of
          [] \<Rightarrow> None
        | n # ns \<Rightarrow>
            (let (minItems, maxItems) = minMax n (n # ns);
                 minItems = (if minItems = 0 then 1 else minItems);
                 ratio = fl (fl (of_int maxItems) / fl (of_int minItems))
             in Some (if 4 < ratio then Fail (''shard_balance: imbalanced (max/min ratio '' @ fmtFixed 1 ratio @ ''x)'')
                      else Pass (''shard_balance: ok (max/min ratio '' @ fmtFixed 1 ratio @ ''x)'')))
      else Some (Pass (''shard_balance: ok (only '' @ formatInt (ss_Items st) @ '' items, ratio not meaningful)'')))"

fun failLines :: "check list \<Rightarrow> string list" where
  "failLines [] = []"
| "failLines (Fail l # cs) = l # failLines cs"
| "failLines (Pass l # cs) = failLines cs"

fun passLines :: "check list \<Rightarrow> string list" where
  "passLines [] = []"
| "passLines (Pass l # cs) = l # passLines cs"
| "passLines (Fail l # cs) = passLines cs"

definition doctorHandler :: "time \<Rightarrow> Server \<Rightarrow> response option" where
  "doctorHandler now s =
     (let st = Server_Stats now s
      in case balanceCheck (sv_Store st) of
           None \<Rightarrow> None
         | Some balance \<Rightarrow>
             (let checks = [memoryCheck (sv_Store st), balance,
                    Pass (''uptime: '' @ durationString (durationRound (sv_Uptime st) (10 ^ 9)))];
                  failures = failLines checks
              in Some \<lparr>rs_status = (if failures \<noteq> [] then 503 else 200),
                       rs_body = concat (map (\<lambda>l. ''FAIL '' @ l @ [LF]) failures)
                         @ concat (map (\<lambda>l. ''OK   '' @ l @ [LF]) (passLines checks))\<rparr>))"

end
