(* ===== verification/Process.thy ===== *)
theory Process
  imports Server
begin

text \<open>
  The serving process: \<open>run\<close> of \<open>cmd/minikv/main.go\<close> accepts connections, each served by \<open>serveConn\<close>
  of \<open>internal/server/server.go\<close> in a goroutine of its own, while \<open>cleanupExpired\<close> sweeps the same
  store.  Goroutines share the store and the atomic counters only, so the model interleaves them at
  the locks of the shards: a round of a command loop reads and writes its own connection and calls
  the store at most once, except that \<open>mget\<close> and \<open>gets\<close> call it once per key, each call a step of its
  own; a sweep visits one shard in a step.

  A connection is given with all the bytes its peer will ever send.  The steps that bound the number
  of connections, and those of a shutdown, are the subject of theory Lifecycle.
\<close>

section \<open>One round of the command loop\<close>

text \<open>\<open>Inl\<close>: the loop ends; \<open>Inr\<close>: it goes on, authenticated or not.\<close>

definition loopRound :: "env \<Rightarrow> bool \<Rightarrow> Server \<Rightarrow> conn \<Rightarrow> (outcome + bool) \<times> Server \<times> conn" where
  "loopRound e authenticated s cn =
     (let cn = (if 0 < srv_idleTimeout s
                then cn\<lparr>cn_deadline := Some (env_start e + srv_idleTimeout s)\<rparr> else cn)
      in case ReadCommand (cn_in cn) of
           (Inl er, inp) \<Rightarrow>
             let cn = cn\<lparr>cn_in := inp\<rparr>
             in if er = Panic then (Inl Crashed, s, cn)
                else let (err, s, w) = handleReadError er s (cn_out cn) in (Inl (Returned err), s, cn\<lparr>cn_out := w\<rparr>)
         | (Inr c, inp) \<Rightarrow>
             let (v, s, w) = serveCommand e authenticated c s (cn_out cn);
                 cn = cn\<lparr>cn_in := inp, cn_out := w\<rparr>
             in case v of Return err \<Rightarrow> (Inl (Returned err), s, cn) | Continue a \<Rightarrow> (Inr a, s, cn))"

section \<open>Connections and the process\<close>

text \<open>
  \<open>cl_fetch\<close> is the state of a handler inside \<open>mget\<close> or \<open>gets\<close>: whether tokens are sent, and the keys still
  to be looked up.  \<open>cl_opened\<close> remembers the connection as it was accepted; the code does not look at
  it.
\<close>

record client =
  cl_opened :: conn
  cl_conn :: conn
  cl_authenticated :: bool
  cl_fetch :: "(bool \<times> key list) option"
  cl_result :: "outcome option"

record process =
  pr_server :: Server
  pr_clients :: "client list"

definition newProcess :: "Server \<Rightarrow> process" where
  "newProcess s = \<lparr>pr_server = s, pr_clients = []\<rparr>"

text \<open>A panic in any goroutine ends the process.\<close>

definition crashed :: "process \<Rightarrow> bool" where
  "crashed p \<longleftrightarrow> list_ex (\<lambda>c. cl_result c = Some Crashed) (pr_clients p)"

definition startClient :: "conn \<Rightarrow> process \<Rightarrow> process" where
  "startClient cn p = p\<lparr>pr_clients := pr_clients p
     @ [\<lparr>cl_opened = cn, cl_conn = cn, cl_authenticated = (srv_authToken (pr_server p) = []),
         cl_fetch = None, cl_result = None\<rparr>]\<rparr>"

text \<open>When the loop returns, \<open>defer writer.Flush()\<close> runs.\<close>

definition endClient :: "outcome \<Rightarrow> client \<Rightarrow> client" where
  "endClient out c =
     (case out of
        Crashed \<Rightarrow> c\<lparr>cl_result := Some Crashed\<rparr>
      | Returned err \<Rightarrow> c\<lparr>cl_result := Some (Returned err),
          cl_conn := (cl_conn c)\<lparr>cn_out := snd (Flush (cn_out (cl_conn c)))\<rparr>\<rparr>)"

definition setClient :: "nat \<Rightarrow> client \<Rightarrow> Server \<Rightarrow> process \<Rightarrow> process" where
  "setClient i c s p = p\<lparr>pr_server := s, pr_clients := (pr_clients p)[i := c]\<rparr>"

text \<open>The beginning of \<open>mget\<close> and \<open>gets\<close>: the command is read and counted.\<close>

definition startFetch :: "env \<Rightarrow> client \<Rightarrow> Server \<Rightarrow> (client \<times> Server) option" where
  "startFetch e c s =
     (case ReadCommand (cn_in (cl_conn c)) of
        (Inr cmd, inp) \<Rightarrow>
          if cl_authenticated c \<and> (cmd_Op cmd = OpMget \<or> cmd_Op cmd = OpGets)
          then let cn = (if 0 < srv_idleTimeout s
                         then (cl_conn c)\<lparr>cn_deadline := Some (env_start e + srv_idleTimeout s)\<rparr> else cl_conn c)
               in Some (c\<lparr>cl_conn := cn\<lparr>cn_in := inp\<rparr>, cl_fetch := Some (cmd_Op cmd = OpGets, cmd_Keys cmd)\<rparr>,
                        countCommand (cmd_Op cmd) s)
          else None
      | _ \<Rightarrow> None)"

definition clientRound :: "env \<Rightarrow> nat \<Rightarrow> process \<Rightarrow> process" where
  "clientRound e i p =
     (let c = pr_clients p ! i
      in case startFetch e c (pr_server p) of
           Some (c, s) \<Rightarrow> setClient i c s p
         | None \<Rightarrow>
             let (r, s, cn) = loopRound e (cl_authenticated c) (pr_server p) (cl_conn c);
                 c = c\<lparr>cl_conn := cn\<rparr>
             in setClient i (case r of Inl out \<Rightarrow> endClient out c | Inr a \<Rightarrow> c\<lparr>cl_authenticated := a\<rparr>) s p)"

text \<open>
  One iteration of the loop of \<open>mget\<close> and \<open>gets\<close>, or what follows it; \<open>Inr\<close>: more keys are to come.
\<close>

fun fetchKey :: "time \<Rightarrow> bool \<Rightarrow> key list \<Rightarrow> Server \<Rightarrow> writer \<Rightarrow> (verdict + key list) \<times> Server \<times> writer" where
  "fetchKey now withCAS [] s w =
     (let (err, w) = writeLine ''END'' w
      in if err then (Inl (Return True), s\<lparr>srv_serverErrors := srv_serverErrors s + 1\<rparr>, w)
         else let (v, s, w) = flushThen (Continue True) s w in (Inl v, s, w))"
| "fetchKey now withCAS (key # keys) s w =
     (let (r, kv) = Store_Get now key (srv_store s); s = s\<lparr>srv_store := kv\<rparr>
      in case r of
           None \<Rightarrow> (Inr keys, s, w)
         | Some item \<Rightarrow>
             let (err, w) = writeItem withCAS key item w
             in if err then (Inl (Return True), s\<lparr>srv_serverErrors := srv_serverErrors s + 1\<rparr>, w)
                else (Inr keys, s, w))"

definition endFetch :: "verdict \<Rightarrow> client \<Rightarrow> client" where
  "endFetch v c =
     (let c = c\<lparr>cl_fetch := None\<rparr>
      in case v of Return err \<Rightarrow> endClient (Returned err) c | Continue a \<Rightarrow> c\<lparr>cl_authenticated := a\<rparr>)"

definition fetchStep :: "time \<Rightarrow> nat \<Rightarrow> process \<Rightarrow> process" where
  "fetchStep now i p =
     (let c = pr_clients p ! i
      in case cl_fetch c of
           None \<Rightarrow> p
         | Some (withCAS, keys) \<Rightarrow>
             let (r, s, w) = fetchKey now withCAS keys (pr_server p) (cn_out (cl_conn c));
                 c = c\<lparr>cl_conn := (cl_conn c)\<lparr>cn_out := w\<rparr>\<rparr>
             in setClient i (case r of Inl v \<Rightarrow> endFetch v c | Inr keys \<Rightarrow> c\<lparr>cl_fetch := Some (withCAS, keys)\<rparr>) s p)"

definition sweepShard :: "range_order \<Rightarrow> time \<Rightarrow> nat \<Rightarrow> process \<Rightarrow> process" where
  "sweepShard ord now i p =
     (let s = pr_server p; kv = srv_store s; (removed, sh) = shard_cleanupExpired ord now (st_shards kv ! i)
      in p\<lparr>pr_server := s\<lparr>srv_store := put_shard i sh (st_cas kv) kv\<rparr>\<rparr>)"

section \<open>Interleavings\<close>

inductive proc_step :: "process \<Rightarrow> process \<Rightarrow> bool" where
  connect: "\<not> crashed p \<Longrightarrow> cn_out cn = newWriter room \<Longrightarrow> proc_step p (startClient cn p)"
| round: "\<not> crashed p \<Longrightarrow> i < length (pr_clients p) \<Longrightarrow> cl_result (pr_clients p ! i) = None
    \<Longrightarrow> cl_fetch (pr_clients p ! i) = None \<Longrightarrow> iterates (env_ord e) \<Longrightarrow> proc_step p (clientRound e i p)"
| fetch: "\<not> crashed p \<Longrightarrow> i < length (pr_clients p) \<Longrightarrow> cl_result (pr_clients p ! i) = None
    \<Longrightarrow> cl_fetch (pr_clients p ! i) \<noteq> None \<Longrightarrow> proc_step p (fetchStep now i p)"
| sweep: "\<not> crashed p \<Longrightarrow> i < length (st_shards (srv_store (pr_server p))) \<Longrightarrow> iterates ord
    \<Longrightarrow> proc_step p (sweepShard ord now i p)"

text \<open>\<open>proc_reach s n p\<close>: a process started with server \<open>s\<close> is at \<open>p\<close> after \<open>n\<close> steps.\<close>

inductive proc_reach :: "Server \<Rightarrow> nat \<Rightarrow> process \<Rightarrow> bool" for s where
  start: "proc_reach s 0 (newProcess s)"
| step: "proc_reach s n p \<Longrightarrow> proc_step p p' \<Longrightarrow> proc_reach s (Suc n) p'"

end
