(* ===== verification/Process_Props.thy ===== *)
theory Process_Props
  imports Process Server_Properties Ops_Props "HOL-Library.Sublist"
begin

text \<open>
  The serving process: whatever the peers send and however the goroutines interleave, the store moves
  by calls of its methods, and it is closed to connections without the token.
\<close>

section \<open>The rounds are the loop\<close>

lemma serveConnLoop_round:
  "serveConnLoop envs i a s cn =
     (case loopRound (envs i) a s cn of
        (Inl out, s, cn) \<Rightarrow> (out, s, cn)
      | (Inr a, s, cn) \<Rightarrow> serveConnLoop envs (Suc i) a s cn)"
  by (subst serveConnLoop.simps) (simp add: loopRound_def Let_def split: prod.split sum.split verdict.split)

lemma wfCommand_keys:
  assumes "wfCommand c"
  shows "list_all wfKey (cmd_Keys c)" "cmd_Op c \<noteq> OpMget \<Longrightarrow> cmd_Op c \<noteq> OpGets \<Longrightarrow> cmd_Keys c = []"
  using assms by (auto simp: wfCommand_def newCommand_def dest!: arg_cong [where f = cmd_Keys] split: Op.splits)

text \<open>Apart from \<open>mget\<close> and \<open>gets\<close>, a round calls the store at most once.\<close>

lemma loopRound_run:
  assumes "sane_config config" "store_inv config (srv_store s)" "iterates (env_ord e)"
    and "loopRound e a s cn = (r, s', cn')"
    and "\<forall>c inp. ReadCommand (cn_in cn) = (Inr c, inp) \<longrightarrow> a \<longrightarrow> cmd_Op c \<noteq> OpMget \<and> cmd_Op c \<noteq> OpGets"
  shows "\<exists>m\<le>1. run m (srv_store s) (srv_store s')"
proof (cases "ReadCommand (cn_in cn)")
  case (Pair x inp)
  show ?thesis
  proof (cases x)
    case (Inl er)
    with Pair have "srv_store s' = srv_store s"
      using assms(4) by (auto simp: loopRound_def Let_def split: if_splits prod.splits dest!: handleReadError_store)
    then show ?thesis by (intro exI [of _ 0]) (simp add: run_none)
  next
    case (Inr c)
    with Pair have rd: "ReadCommand (cn_in cn) = (Inr c, inp)" by simp
    obtain v w where v: "serveCommand e a c s (cn_out cn) = (v, s', w)"
      using assms(4) rd by (fastforce simp: loopRound_def Let_def split: if_splits prod.splits verdict.splits)
    show ?thesis
    proof (cases a)
      case False
      then have "srv_store s' = srv_store s" using serveCommand_closed [OF v] by simp
      then show ?thesis by (intro exI [of _ 0]) (simp add: run_none)
    next
      case True
      have wf: "wfCommand c" using ReadCommand_ok [OF rd] ..
      then have "calls c = 1" using assms(5) rd True wfCommand_keys(2) [OF wf] by (simp add: calls_def)
      with serveCommand_run [OF assms(1-3) wf v] show ?thesis by simp
    qed
  qed
qed

lemma countCommand_token [simp]: "srv_authToken (countCommand op s) = srv_authToken s"
  by (cases op) (simp_all add: countCommand_def)

lemma execute_token: "execute e c s w = (err, s', w') \<Longrightarrow> srv_authToken s' = srv_authToken s"
  by (drule execute_store_frame, drule arg_cong [where f = srv_authToken]) simp

lemma serveCommand_token: "serveCommand e a c s w = (v, s', w') \<Longrightarrow> srv_authToken s' = srv_authToken s"
  by (auto simp: serveCommand_def handleAuthGate_def Let_def split: if_splits prod.splits
      dest!: flushThen_server execute_token)

lemma loopRound_token: "loopRound e a s cn = (r, s', cn') \<Longrightarrow> srv_authToken s' = srv_authToken s"
  by (auto simp: loopRound_def handleReadError_def clientError_def Let_def
      split: if_splits prod.splits sum.splits verdict.splits dest!: serveCommand_token)

section \<open>Fetching key by key\<close>

text \<open>What a handler inside \<open>mget\<close> or \<open>gets\<close> still has to do, in one go.\<close>

definition fetchRest :: "(nat \<Rightarrow> time) \<Rightarrow> nat \<Rightarrow> bool \<Rightarrow> key list \<Rightarrow> Server \<Rightarrow> writer \<Rightarrow> verdict \<times> Server \<times> writer" where
  "fetchRest clock j withCAS keys s w =
     (let (err, kv, w) = mgetLoop withCAS clock j keys (srv_store s) w; s = s\<lparr>srv_store := kv\<rparr>
      in if err then (Return True, s\<lparr>srv_serverErrors := srv_serverErrors s + 1\<rparr>, w)
         else flushThen (Continue True) s w)"

lemma fetchRest_key:
  "fetchRest clock j b ks s w = (case fetchKey (clock j) b ks s w of
     (Inl v, s, w) \<Rightarrow> (v, s, w) | (Inr ks', s, w) \<Rightarrow> fetchRest clock (Suc j) b ks' s w)"
  by (cases ks) (auto simp: fetchRest_def Let_def split: prod.split option.split)

lemma fetchKey_more: "fetchKey now b ks s w = (Inr ks', s', w') \<Longrightarrow> \<exists>k. ks = k # ks'"
  by (cases ks) (auto simp: Let_def split: prod.splits if_splits option.splits)

lemma serveCommand_fetch:
  assumes "cmd_Op c = OpMget \<or> cmd_Op c = OpGets"
  shows "serveCommand e True c s w
    = fetchRest (env_clock e) 0 (cmd_Op c = OpGets) (cmd_Keys c) (countCommand (cmd_Op c) s) w"
  using assms by (elim disjE) (simp_all add: serveCommand_def execute_def fetchRest_def Let_def case_prod_unfold)

lemma fetchKey_token: "fetchKey now b ks s w = (r, s', w') \<Longrightarrow> srv_authToken s' = srv_authToken s"
  by (cases ks) (auto simp: Let_def split: prod.splits if_splits option.splits dest!: flushThen_server)

lemma fetchKey_run:
  assumes "sane_config config" "store_inv config (srv_store s)" "list_all wfKey ks" "fetchKey now b ks s w = (r, s', w')"
  shows "\<exists>m\<le>1. run m (srv_store s) (srv_store s')"
proof (cases ks)
  case Nil
  then have "srv_store s' = srv_store s"
    using assms(4) by (auto simp: Let_def split: prod.splits if_splits dest!: flushThen_server)
  then show ?thesis by (intro exI [of _ 0]) (simp add: run_none)
next
  case (Cons k ks')
  obtain x kv where g: "Store_Get now k (srv_store s) = (x, kv)" by fastforce
  have "srv_store s' = kv" using assms(4) Cons g by (auto simp: Let_def split: prod.splits if_splits option.splits)
  with get_step(1) [OF assms(1,2) _ g] run_one Cons assms(3) show ?thesis by (intro exI [of _ 1]) auto
qed

lemma endClient_fields [simp]:
  "cl_result (endClient out c) = Some out" "cl_opened (endClient out c) = cl_opened c"
  "cl_fetch (endClient out c) = cl_fetch c"
  by (simp_all add: endClient_def split: outcome.split)

lemma endFetch_fields [simp]:
  "cl_opened (endFetch v c) = cl_opened c" "cl_fetch (endFetch v c) = None"
  by (simp_all add: endFetch_def Let_def split: verdict.split)

text \<open>A round starts a fetch, or it is a round of the command loop.\<close>

lemma clientRound_cases:
  assumes "c = pr_clients p ! i" "cl_fetch c = None"
  obtains (Fetch) cmd inp c' where "ReadCommand (cn_in (cl_conn c)) = (Inr cmd, inp)" "cl_authenticated c"
      "clientRound e i p = setClient i c' (countCommand (cmd_Op cmd) (pr_server p)) p"
      "c' = c\<lparr>cl_conn := cl_conn c', cl_fetch := Some (cmd_Op cmd = OpGets, cmd_Keys cmd)\<rparr>"
      "cn_in (cl_conn c') = inp" "cn_out (cl_conn c') = cn_out (cl_conn c)"
      "loopRound e True (pr_server p) (cl_conn c) = (case fetchRest (env_clock e) 0 (cmd_Op cmd = OpGets) (cmd_Keys cmd)
          (countCommand (cmd_Op cmd) (pr_server p)) (cn_out (cl_conn c)) of
         (v, s, w) \<Rightarrow> (case v of Return err \<Rightarrow> Inl (Returned err) | Continue a \<Rightarrow> Inr a, s, (cl_conn c')\<lparr>cn_out := w\<rparr>))"
      "cl_opened c' = cl_opened c"
  | (Loop) r s cn c' where "loopRound e (cl_authenticated c) (pr_server p) (cl_conn c) = (r, s, cn)"
      "clientRound e i p = setClient i c' s p" "cl_opened c' = cl_opened c" "cl_fetch c' = None"
      "c' = (case r of Inl out \<Rightarrow> endClient out (c\<lparr>cl_conn := cn\<rparr>) | Inr a \<Rightarrow> c\<lparr>cl_conn := cn, cl_authenticated := a\<rparr>)"
      "startFetch e c (pr_server p) = None"
proof (cases "startFetch e c (pr_server p)")
  case None
  obtain r s cn where l: "loopRound e (cl_authenticated c) (pr_server p) (cl_conn c) = (r, s, cn)" by (metis prod_cases3)
  show ?thesis
    by (rule Loop [OF l _ _ _ refl None]) (use assms None l in \<open>auto simp: clientRound_def split: sum.split\<close>)
next
  case (Some cs)
  let ?cn = "if 0 < srv_idleTimeout (pr_server p)
    then (cl_conn c)\<lparr>cn_deadline := Some (env_start e + srv_idleTimeout (pr_server p))\<rparr> else cl_conn c"
  from Some obtain cmd inp where rd: "ReadCommand (cn_in (cl_conn c)) = (Inr cmd, inp)" "cl_authenticated c"
    "cmd_Op cmd = OpMget \<or> cmd_Op cmd = OpGets"
    and cs: "cs = (c\<lparr>cl_conn := ?cn\<lparr>cn_in := inp\<rparr>, cl_fetch := Some (cmd_Op cmd = OpGets, cmd_Keys cmd)\<rparr>,
       countCommand (cmd_Op cmd) (pr_server p))"
    by (auto simp: startFetch_def Let_def split: prod.splits sum.splits if_splits)
  show ?thesis
    by (rule Fetch [OF rd(1,2), of "fst cs"])
      (use assms Some rd cs serveCommand_fetch [OF rd(3), of e] in
        \<open>auto simp: clientRound_def loopRound_def Let_def split: prod.split verdict.split\<close>)
qed

section \<open>The store under all interleavings\<close>

definition fetch_ok :: "client \<Rightarrow> bool" where
  "fetch_ok c \<longleftrightarrow> (\<forall>b ks. cl_fetch c = Some (b, ks) \<longrightarrow> list_all wfKey ks)"

text \<open>A step of one client, as its effect on the store and on that client.\<close>

definition client_run :: "nat \<Rightarrow> process \<Rightarrow> process \<Rightarrow> bool" where
  "client_run i p p' \<longleftrightarrow> (\<exists>c s m. p' = setClient i c s p \<and> m \<le> 1 \<and> run m (srv_store (pr_server p)) (srv_store s)
     \<and> fetch_ok c)"

lemma clientRound_run:
  assumes "sane_config config" "store_inv config (srv_store (pr_server p))" "iterates (env_ord e)"
    and "c = pr_clients p ! i" "cl_fetch c = None"
  shows "client_run i p (clientRound e i p)"
  using assms(4,5)
proof (cases rule: clientRound_cases [where e = e])
  case (Fetch cmd inp c')
  have "list_all wfKey (cmd_Keys cmd)" using ReadCommand_ok [OF Fetch(1)] wfCommand_keys(1) by blast
  moreover have "cl_fetch c' = Some (cmd_Op cmd = OpGets, cmd_Keys cmd)" by (subst Fetch(4)) simp
  ultimately show ?thesis
    using Fetch(3) unfolding client_run_def
    by (intro exI [of _ c'] exI [of _ "countCommand (cmd_Op cmd) (pr_server p)"] exI [of _ 0])
      (simp add: run_none fetch_ok_def)
next
  case (Loop r s cn c')
  have "\<forall>cmd inp. ReadCommand (cn_in (cl_conn c)) = (Inr cmd, inp) \<longrightarrow> cl_authenticated c
      \<longrightarrow> cmd_Op cmd \<noteq> OpMget \<and> cmd_Op cmd \<noteq> OpGets"
    using Loop(6) by (auto simp: startFetch_def Let_def)
  from loopRound_run [OF assms(1-3) Loop(1) this]
  obtain m where "m \<le> 1" "run m (srv_store (pr_server p)) (srv_store s)" by blast
  then show ?thesis
    using Loop(2,4) unfolding client_run_def
    by (intro exI [of _ c'] exI [of _ s] exI [of _ m]) (simp add: fetch_ok_def)
qed

lemma fetchStep_run:
  assumes "sane_config config" "store_inv config (srv_store (pr_server p))" "c = pr_clients p ! i"
    and "cl_fetch c \<noteq> None" "fetch_ok c"
  shows "client_run i p (fetchStep now i p)"
proof -
  obtain b ks where f: "cl_fetch c = Some (b, ks)" using assms(4) by auto
  obtain r s w where k: "fetchKey now b ks (pr_server p) (cn_out (cl_conn c)) = (r, s, w)" by (metis prod_cases3)
  have ks: "list_all wfKey ks" using assms(5) f by (simp add: fetch_ok_def)
  obtain m where m: "m \<le> 1" "run m (srv_store (pr_server p)) (srv_store s)"
    using fetchKey_run [OF assms(1,2) ks k] by blast
  define c' where "c' = (case r of Inl v \<Rightarrow> endFetch v (c\<lparr>cl_conn := (cl_conn c)\<lparr>cn_out := w\<rparr>\<rparr>)
      | Inr ks' \<Rightarrow> c\<lparr>cl_conn := (cl_conn c)\<lparr>cn_out := w\<rparr>, cl_fetch := Some (b, ks')\<rparr>)"
  have "fetch_ok c'"
    using ks k fetchKey_more [of now b ks "pr_server p" "cn_out (cl_conn c)" _ s w]
    by (auto simp: c'_def fetch_ok_def split: sum.splits)
  moreover have "fetchStep now i p = setClient i c' s p"
    using f k assms(3) by (auto simp: fetchStep_def c'_def Let_def split: sum.split)
  ultimately show ?thesis
    using m assms(3) unfolding client_run_def by (intro exI [of _ c'] exI [of _ s] exI [of _ m]) simp
qed

lemma proc_step_run:
  assumes "proc_step p p'" "sane_config config" "store_inv config (srv_store (pr_server p))" "list_all fetch_ok (pr_clients p)"
  shows "list_all fetch_ok (pr_clients p') \<and> (\<exists>m\<le>1. run m (srv_store (pr_server p)) (srv_store (pr_server p')))"
proof -
  have one: ?thesis if "client_run i p p'" for i
    using that assms(4) by (auto simp: client_run_def setClient_def list_all_iff dest!: set_update_subset_insert [THEN subsetD])
  from assms(1) show ?thesis
  proof (cases rule: proc_step.cases)
    case (connect cn room)
    then show ?thesis using assms(4) by (auto simp: run_none startClient_def fetch_ok_def intro!: exI [of _ 0])
  next
    case (round i e)
    show ?thesis by (rule one) (use clientRound_run [OF assms(2,3) round(6) refl round(5)] round(1) in simp)
  next
    case (fetch i now)
    have "fetch_ok (pr_clients p ! i)" using assms(4) fetch(3) by (simp add: list_all_length)
    then show ?thesis by (intro one) (use fetchStep_run [OF assms(2,3) refl fetch(5)] fetch(1) in simp)
  next
    case (sweep i ord now)
    obtain removed sh where x: "shard_cleanupExpired ord now (st_shards (srv_store (pr_server p)) ! i) = (removed, sh)" by fastforce
    from cleanup_one(1) [where clock = "\<lambda>_. now", OF assms(2,3) sweep(4,3) x] run_one assms(4) show ?thesis
      by (auto simp: sweep(1) sweepShard_def x Let_def intro!: exI [of _ 1])
  qed
qed

lemma proc_reach_run:
  assumes "proc_reach s n p" "sane_config config" "reachable config m0 (srv_store s)"
  shows "\<exists>m\<le>m0 + n. reachable config m (srv_store (pr_server p))"
proof -
  have "list_all fetch_ok (pr_clients p) \<and> (\<exists>m\<le>m0 + n. reachable config m (srv_store (pr_server p)))"
    using assms(1)
  proof induction
    case start
    then show ?case using assms(3) by (auto simp: newProcess_def)
  next
    case (step n p p')
    then obtain m where ok: "list_all fetch_ok (pr_clients p)"
      and m: "m \<le> m0 + n" "reachable config m (srv_store (pr_server p))" by blast
    obtain k where "list_all fetch_ok (pr_clients p')" "k \<le> 1" "run k (srv_store (pr_server p)) (srv_store (pr_server p'))"
      using proc_step_run [OF step(2) assms(2) reachable_inv [OF assms(2) m(2)] ok] by blast
    then show ?case
      using m run_append unfolding reachable_def by (intro conjI exI [of _ "m + k"]) fastforce+
  qed
  then show ?thesis ..
qed

section \<open>The gate under all interleavings\<close>

definition refusals :: "string list" where
  "refusals = [''CLIENT_ERROR auth required'', ''CLIENT_ERROR auth failed'', ''CLIENT_ERROR bad command'']"

text \<open>Nothing but (the beginning of) one refusal has been sent.\<close>

definition refused :: "writer \<Rightarrow> bool" where
  "refused w \<longleftrightarrow> (\<exists>l\<in>set refusals. prefix (w_sent w) (line l))"

lemma newWriter_refused: "refused (newWriter room)" "refused (snd (Flush (newWriter room)))"
  by (auto simp: refused_def refusals_def newWriter_def Flush_def)

lemma flush_refusal:
  assumes "l \<in> set refusals" "Flush (snd (writeLine l (newWriter room))) = (err, w)"
  shows "refused w" "refused (snd (Flush w))"
proof -
  have "length l + 2 \<le> bufferSize" "l \<noteq> []" using assms(1) by (auto simp: refusals_def bufferSize_def)
  then have wl: "snd (writeLine l (newWriter room)) = (newWriter room)\<lparr>w_buf := line l\<rparr>"
    by (auto simp: writeLine_def writeBytes_def writeFresh_def newWriter_def line_def)
  have "line l \<noteq> []" by (simp add: line_def)
  then have "prefix (w_sent w) (line l) \<and> snd (Flush w) = w"
    using assms(2) unfolding wl
    by (auto simp: Flush_def connWrite_def newWriter_def Let_def take_is_prefix split: option.splits if_splits)
  then show "refused w" "refused (snd (Flush w))" using assms(1) by (auto simp: refused_def)
qed

lemma gate_command:
  assumes "cmd_Op c \<noteq> OpAuth \<or> cmd_Token c \<noteq> srv_authToken s" "serveCommand e False c s (newWriter room) = (v, s', w)"
  shows "srv_store s' = srv_store s" "\<exists>err. v = Return err" "refused (snd (Flush w))"
proof -
  have "\<exists>l s1. l \<in> set refusals \<and> srv_store s1 = srv_store s
      \<and> handleAuthGate c s (newWriter room) = (False, True, s1, snd (writeLine l (newWriter room)))"
  proof (cases "cmd_Op c = OpAuth")
    case True
    let ?s = "s\<lparr>srv_cmdAuth := srv_cmdAuth s + 1, srv_authFailures := srv_authFailures s + 1\<rparr>"
    show ?thesis
      using assms(1) True by (intro exI [of _ "''CLIENT_ERROR auth failed''"] exI [of _ ?s]) (simp add: handleAuthGate_def refusals_def)
  next
    case False
    then show ?thesis
      by (intro exI [of _ "''CLIENT_ERROR auth required''"] exI [of _ s]) (simp add: handleAuthGate_def refusals_def)
  qed
  then obtain l s1 where l: "l \<in> set refusals" "srv_store s1 = srv_store s"
    "handleAuthGate c s (newWriter room) = (False, True, s1, snd (writeLine l (newWriter room)))" by blast
  obtain err w1 where "Flush (snd (writeLine l (newWriter room))) = (err, w1)" by fastforce
  with assms(2) l flush_refusal(2) [OF l(1) this]
  show "srv_store s' = srv_store s" "\<exists>err. v = Return err" "refused (snd (Flush w))"
    by (auto simp: serveCommand_def flushThen_def split: if_splits)
qed

lemma gate_error:
  assumes "handleReadError er s (newWriter room) = (err, s', w)"
  shows "srv_store s' = srv_store s" "refused (snd (Flush w))"
proof -
  obtain x y where "Flush (snd (writeLine ''CLIENT_ERROR bad command'' (newWriter room))) = (x, y)" by fastforce
  with assms flush_refusal(2) [OF _ this] newWriter_refused(2)
  show "srv_store s' = srv_store s" "refused (snd (Flush w))"
    by (auto simp: handleReadError_def clientError_def refusals_def split: if_splits)
qed

lemma gate_round:
  assumes "srv_authToken s \<noteq> []" "\<not> authenticates s (cn_in cn)" "cn_out cn = newWriter room"
    and "loopRound e False s cn = (r, s', cn')"
  shows "srv_store s' = srv_store s \<and> (\<exists>out. r = Inl out \<and> refused (cn_out (cl_conn (endClient out (c\<lparr>cl_conn := cn'\<rparr>)))))"
proof -
  obtain rd inp where rd: "ReadCommand (cn_in cn) = (rd, inp)" by fastforce
  show ?thesis
  proof (cases rd)
    case (Inl er)
    obtain err s1 w where "handleReadError er s (newWriter room) = (err, s1, w)" by (metis prod_cases3)
    with assms(3,4) rd Inl gate_error [OF this] newWriter_refused(1) show ?thesis
      by (auto simp: loopRound_def endClient_def Let_def split: if_splits)
  next
    case (Inr cmd)
    obtain v s1 w where x: "serveCommand e False cmd s (newWriter room) = (v, s1, w)" by (metis prod_cases3)
    have "cmd_Op cmd \<noteq> OpAuth \<or> cmd_Token cmd \<noteq> srv_authToken s"
      using assms(2) rd Inr by (simp add: authenticates_def)
    from gate_command [OF this x] assms(3,4) rd Inr x show ?thesis
      by (auto simp: loopRound_def endClient_def Let_def split: if_splits)
  qed
qed

text \<open>A client without the token is waiting at the gate, or has been turned away.\<close>

definition shut_out :: "Server \<Rightarrow> client \<Rightarrow> bool" where
  "shut_out s c \<longleftrightarrow> authenticates s (cn_in (cl_opened c))
     \<or> refused (cn_out (cl_conn c)) \<and> (cl_result c = None \<longrightarrow> \<not> cl_authenticated c \<and> cl_fetch c = None
         \<and> cn_in (cl_conn c) = cn_in (cl_opened c) \<and> (\<exists>room. cn_out (cl_conn c) = newWriter room))"

definition intruders :: "Server \<Rightarrow> process \<Rightarrow> bool" where
  "intruders s p \<longleftrightarrow> list_all (\<lambda>c. \<not> authenticates s (cn_in (cl_opened c))) (pr_clients p)"

lemma authenticates_token: "srv_authToken s = srv_authToken s' \<Longrightarrow> authenticates s inp = authenticates s' inp"
  by (auto simp: authenticates_def split: prod.splits sum.splits)

lemma sweep_New:
  assumes "iterates ord" "i < length (st_shards (New config))"
  shows "shard_cleanupExpired ord now (st_shards (New config) ! i) = (0, st_shards (New config) ! i)"
proof -
  have "mset (ord []) = {#}" using assms(1) by (simp add: iterates_def)
  then have "ord [] = []" by simp
  then show ?thesis using assms(2) by (simp add: New_def Let_def shard_cleanupExpired_def newShard_def)
qed

text \<open>A step of a client keeps the gate: without the token, it ends the client and not more.\<close>

definition gated :: "Server \<Rightarrow> nat \<Rightarrow> process \<Rightarrow> process \<Rightarrow> bool" where
  "gated s i p p' \<longleftrightarrow> (\<exists>c s1. p' = setClient i c s1 p \<and> cl_opened c = cl_opened (pr_clients p ! i)
     \<and> srv_authToken s1 = srv_authToken (pr_server p)
     \<and> (\<not> authenticates s (cn_in (cl_opened c)) \<longrightarrow>
          srv_store s1 = srv_store (pr_server p) \<and> refused (cn_out (cl_conn c)) \<and> cl_result c \<noteq> None))"

lemma clientRound_gated:
  assumes "srv_authToken s \<noteq> []" "srv_authToken (pr_server p) = srv_authToken s"
    and "c = pr_clients p ! i" "cl_result c = None" "cl_fetch c = None" "shut_out s c"
  shows "gated s i p (clientRound e i p)"
  using assms(3,5)
proof (cases rule: clientRound_cases [where e = e])
  case (Fetch cmd inp c')
  then show ?thesis
    using Fetch(2,3,8) assms(3,4,6) unfolding gated_def
    by (intro exI [of _ c'] exI [of _ "countCommand (cmd_Op cmd) (pr_server p)"]) (auto simp: shut_out_def)
next
  case (Loop r s1 cn c')
  have "srv_store s1 = srv_store (pr_server p) \<and> refused (cn_out (cl_conn c')) \<and> cl_result c' \<noteq> None"
    if no: "\<not> authenticates s (cn_in (cl_opened c))"
  proof -
    obtain room where "\<not> cl_authenticated c" "cn_in (cl_conn c) = cn_in (cl_opened c)" "cn_out (cl_conn c) = newWriter room"
      using assms(4,6) no by (auto simp: shut_out_def)
    moreover have "\<not> authenticates (pr_server p) (cn_in (cl_opened c))" using no authenticates_token [OF assms(2)] by simp
    ultimately show ?thesis
      using gate_round [of "pr_server p" "cl_conn c" room e r s1 cn c] Loop(1,5) assms(1,2) by auto
  qed
  then show ?thesis
    using Loop(2,3) loopRound_token [OF Loop(1)] assms(3) unfolding gated_def
    by (intro exI [of _ c'] exI [of _ s1]) auto
qed

lemma fetchStep_gated:
  assumes "c = pr_clients p ! i" "cl_result c = None" "cl_fetch c \<noteq> None" "shut_out s c"
  shows "gated s i p (fetchStep now i p)"
proof -
  obtain b ks where f: "cl_fetch c = Some (b, ks)" using assms(3) by auto
  obtain r s1 w where k: "fetchKey now b ks (pr_server p) (cn_out (cl_conn c)) = (r, s1, w)" by (metis prod_cases3)
  have "authenticates s (cn_in (cl_opened c))" using assms(2-4) by (auto simp: shut_out_def)
  then show ?thesis
    using f k assms(1) fetchKey_token [OF k] unfolding gated_def
    by (auto simp: fetchStep_def Let_def split: sum.split intro!: exI [of _ s1])
qed

lemma proc_step_gate:
  assumes "proc_step p p'" "srv_authToken s \<noteq> []" "srv_authToken (pr_server p) = srv_authToken s"
    and "list_all (shut_out s) (pr_clients p)"
  shows "srv_authToken (pr_server p') = srv_authToken s \<and> list_all (shut_out s) (pr_clients p')
    \<and> (intruders s p' \<longrightarrow> intruders s p \<and> (srv_store (pr_server p) = New config \<longrightarrow> srv_store (pr_server p') = New config))"
proof -
  have one: ?thesis if cr: "gated s i p p'" and i: "i < length (pr_clients p)" for i
  proof -
    obtain c s1 where c: "p' = setClient i c s1 p" "cl_opened c = cl_opened (pr_clients p ! i)"
      "srv_authToken s1 = srv_authToken (pr_server p)" "\<not> authenticates s (cn_in (cl_opened c)) \<longrightarrow>
        srv_store s1 = srv_store (pr_server p) \<and> refused (cn_out (cl_conn c)) \<and> cl_result c \<noteq> None"
      using cr unfolding gated_def by blast
    then have "shut_out s c" by (auto simp: shut_out_def)
    with c assms(3,4) i show ?thesis
      by (auto simp: setClient_def intruders_def list_all_length nth_list_update split: if_splits)
  qed
  from assms(1) show ?thesis
  proof (cases rule: proc_step.cases)
    case (connect cn room)
    then show ?thesis
      using assms(2-4) newWriter_refused(1) by (auto simp: startClient_def shut_out_def intruders_def)
  next
    case (round i e)
    have "shut_out s (pr_clients p ! i)" using assms(4) round(3) by (simp add: list_all_length)
    then show ?thesis
      by (intro one [OF _ round(3)]) (use clientRound_gated [OF assms(2,3) refl round(4,5)] round(1) in simp)
  next
    case (fetch i now)
    have "shut_out s (pr_clients p ! i)" using assms(4) fetch(3) by (simp add: list_all_length)
    then show ?thesis
      by (intro one [OF _ fetch(3)]) (use fetchStep_gated [OF refl fetch(4,5)] fetch(1) in simp)
  next
    case (sweep i ord now)
    then show ?thesis
      using assms(3,4) sweep_New [OF sweep(4), of i config now]
      by (auto simp: sweepShard_def intruders_def put_shard_def Let_def split: prod.splits)
  qed
qed

lemma proc_reach_gate:
  assumes "proc_reach s n p" "srv_authToken s \<noteq> []"
  shows "list_all (shut_out s) (pr_clients p)"
    and "srv_store s = New config \<Longrightarrow> intruders s p \<Longrightarrow> srv_store (pr_server p) = New config"
proof -
  have "srv_authToken (pr_server p) = srv_authToken s \<and> list_all (shut_out s) (pr_clients p)
    \<and> (srv_store s = New config \<longrightarrow> intruders s p \<longrightarrow> srv_store (pr_server p) = New config)"
    using assms(1)
  proof induction
    case start
    then show ?case by (simp add: newProcess_def)
  next
    case (step n p p')
    then show ?case using proc_step_gate [OF step(2) assms(2)] by blast
  qed
  then show "list_all (shut_out s) (pr_clients p)"
    "srv_store s = New config \<Longrightarrow> intruders s p \<Longrightarrow> srv_store (pr_server p) = New config" by blast+
qed

section \<open>A connection on its own\<close>

text \<open>
  \<open>rounds envs n j k i p\<close>: client \<open>i\<close> makes \<open>k\<close> steps, the first in round \<open>n\<close> of its loop, at key \<open>j\<close> when inside
  \<open>mget\<close> or \<open>gets\<close>.
\<close>

definition ownStep :: "(nat \<Rightarrow> env) \<Rightarrow> nat \<Rightarrow> nat \<Rightarrow> nat \<Rightarrow> process \<Rightarrow> process" where
  "ownStep envs n j i p =
     (if cl_fetch (pr_clients p ! i) = None then clientRound (envs n) i p else fetchStep (env_clock (envs n) j) i p)"

definition turn :: "nat \<Rightarrow> nat \<Rightarrow> client \<Rightarrow> client \<Rightarrow> nat \<times> nat" where
  "turn n j c c' = (if cl_fetch c' = None then (Suc n, 0) else if cl_fetch c = None then (n, 0) else (n, Suc j))"

fun rounds :: "(nat \<Rightarrow> env) \<Rightarrow> nat \<Rightarrow> nat \<Rightarrow> nat \<Rightarrow> nat \<Rightarrow> process \<Rightarrow> process" where
  "rounds envs n j 0 i p = p"
| "rounds envs n j (Suc k) i p =
     (let p' = ownStep envs n j i p; (n', j') = turn n j (pr_clients p ! i) (pr_clients p' ! i)
      in rounds envs n' j' k i p')"

text \<open>Where the loop leads from the state of a handler, and what bounds its steps.\<close>

definition future :: "(nat \<Rightarrow> env) \<Rightarrow> nat \<times> nat \<Rightarrow> Server \<Rightarrow> client \<Rightarrow> outcome \<times> Server \<times> conn" where
  "future envs nj s c =
     (case cl_fetch c of
        None \<Rightarrow> serveConnLoop envs (fst nj) (cl_authenticated c) s (cl_conn c)
      | Some (b, ks) \<Rightarrow>
          let (v, s, w) = fetchRest (env_clock (envs (fst nj))) (snd nj) b ks s (cn_out (cl_conn c));
              cn = (cl_conn c)\<lparr>cn_out := w\<rparr>
          in case v of Return err \<Rightarrow> (Returned err, s, cn) | Continue a \<Rightarrow> serveConnLoop envs (Suc (fst nj)) a s cn)"

definition todo :: "client \<Rightarrow> nat" where
  "todo c = 2 * length (in_data (cn_in (cl_conn c))) + (case cl_fetch c of None \<Rightarrow> 0 | Some (b, ks) \<Rightarrow> Suc (length ks))"

definition advances :: "(nat \<Rightarrow> env) \<Rightarrow> nat \<Rightarrow> nat \<Rightarrow> Server \<Rightarrow> client \<Rightarrow> Server \<Rightarrow> client \<Rightarrow> bool" where
  "advances envs n j s c s' c' \<longleftrightarrow>
     (\<exists>out c0. c' = endClient out c0 \<and> future envs (n, j) s c = (out, s', cl_conn c0))
     \<or> cl_result c' = None \<and> todo c' < todo c \<and> future envs (n, j) s c = future envs (turn n j c c') s' c'"

lemma setClient_simps [simp]:
  "pr_server (setClient i c s p) = s" "length (pr_clients (setClient i c s p)) = length (pr_clients p)"
  "i < length (pr_clients p) \<Longrightarrow> pr_clients (setClient i c s p) ! i = c"
  "setClient i c s (setClient i c' s' p) = setClient i c s p"
  by (simp_all add: setClient_def)

lemma loopRound_shorter:
  "loopRound e a s cn = (Inr a', s', cn') \<Longrightarrow> length (in_data (cn_in cn')) < length (in_data (cn_in cn))"
  by (auto simp: loopRound_def Let_def split: if_splits prod.splits sum.splits verdict.splits dest!: ReadCommand_shorter)

lemma clientRound_advances:
  assumes "c = pr_clients p ! i" "cl_result c = None" "cl_fetch c = None"
  shows "\<exists>c' s'. clientRound (envs n) i p = setClient i c' s' p \<and> advances envs n j (pr_server p) c s' c'"
  using assms(1,3)
proof (cases rule: clientRound_cases [where e = "envs n"])
  case (Fetch cmd inp c')
  have f: "cl_fetch c' = Some (cmd_Op cmd = OpGets, cmd_Keys cmd)" "cl_result c' = None"
    by (subst Fetch(4), simp add: assms(2))+
  have "future envs (n, j) (pr_server p) c = future envs (n, 0) (countCommand (cmd_Op cmd) (pr_server p)) c'"
    using Fetch(2,6,7) f(1) assms(3)
    by (auto simp: future_def serveConnLoop_round [of envs n] split: prod.split verdict.split)
  then have "advances envs n j (pr_server p) c (countCommand (cmd_Op cmd) (pr_server p)) c'"
    using f assms(3) ReadCommand_keys [OF Fetch(1)] Fetch(5) by (simp add: advances_def turn_def todo_def)
  then show ?thesis using Fetch(3) by blast
next
  case (Loop r s cn c')
  have "advances envs n j (pr_server p) c s c'"
  proof (cases r)
    case (Inl out)
    then have "future envs (n, j) (pr_server p) c = (out, s, cl_conn (c\<lparr>cl_conn := cn\<rparr>))"
      using Loop(1) assms(3) by (simp add: future_def serveConnLoop_round [of envs n])
    then show ?thesis using Inl Loop(5) unfolding advances_def by auto
  next
    case (Inr a)
    then show ?thesis
      using Loop(1,5) assms(2,3) loopRound_shorter [of "envs n"]
      by (auto simp: advances_def turn_def todo_def future_def serveConnLoop_round [of envs n])
  qed
  then show ?thesis using Loop(2) by blast
qed

lemma fetchStep_advances:
  assumes "c = pr_clients p ! i" "cl_result c = None" "cl_fetch c = Some (b, ks)"
  shows "\<exists>c' s'. fetchStep (env_clock (envs n) j) i p = setClient i c' s' p \<and> advances envs n j (pr_server p) c s' c'"
proof -
  obtain r s w where k: "fetchKey (env_clock (envs n) j) b ks (pr_server p) (cn_out (cl_conn c)) = (r, s, w)" by (metis prod_cases3)
  define c' where "c' = (case r of Inl v \<Rightarrow> endFetch v (c\<lparr>cl_conn := (cl_conn c)\<lparr>cn_out := w\<rparr>\<rparr>)
      | Inr ks' \<Rightarrow> c\<lparr>cl_conn := (cl_conn c)\<lparr>cn_out := w\<rparr>, cl_fetch := Some (b, ks')\<rparr>)"
  have "advances envs n j (pr_server p) c s c'"
  proof (cases r)
    case (Inr ks')
    have "length ks' < length ks" using fetchKey_more [OF k [unfolded Inr]] by auto
    then show ?thesis
      using k Inr assms(2,3) unfolding advances_def
      by (intro disjI2) (simp add: turn_def todo_def future_def c'_def Let_def fetchRest_key [of _ j] split: prod.split verdict.split)
  next
    case (Inl v)
    have fut: "future envs (n, j) (pr_server p) c = (case v of Return err \<Rightarrow> (Returned err, s, (cl_conn c)\<lparr>cn_out := w\<rparr>)
        | Continue a \<Rightarrow> serveConnLoop envs (Suc n) a s ((cl_conn c)\<lparr>cn_out := w\<rparr>))"
      using k Inl assms(3) by (cases v) (simp_all add: future_def fetchRest_key [of _ j])
    show ?thesis
    proof (cases v)
      case (Return err)
      then show ?thesis
        using fut Inl unfolding advances_def
        by (intro disjI1 exI [of _ "Returned err"] exI [of _ "c\<lparr>cl_conn := (cl_conn c)\<lparr>cn_out := w\<rparr>, cl_fetch := None\<rparr>"])
          (simp add: c'_def endFetch_def)
    next
      case (Continue a)
      then show ?thesis
        using fut Inl assms(2,3) by (simp add: advances_def turn_def todo_def future_def c'_def endFetch_def)
    qed
  qed
  moreover have "fetchStep (env_clock (envs n) j) i p = setClient i c' s p"
    using k assms(1,3) by (auto simp: fetchStep_def c'_def Let_def split: sum.split)
  ultimately show ?thesis by blast
qed

lemma ownStep_advances:
  assumes "cl_result (pr_clients p ! i) = None"
  obtains c' s' where "ownStep envs n j i p = setClient i c' s' p" "advances envs n j (pr_server p) (pr_clients p ! i) s' c'"
  using clientRound_advances [OF refl assms] fetchStep_advances [OF refl assms] unfolding ownStep_def
  by (cases "cl_fetch (pr_clients p ! i)") (simp, blast, fastforce)

lemma rounds_future:
  assumes "future envs (n, j) (pr_server p) (pr_clients p ! i) = (out, s', cn')"
    and "i < length (pr_clients p)" "cl_result (pr_clients p ! i) = None"
  shows "\<exists>k\<le>todo (pr_clients p ! i). \<exists>c. rounds envs n j (Suc k) i p = setClient i (endClient out c) s' p \<and> cl_conn c = cn'"
  using assms
proof (induction "todo (pr_clients p ! i)" arbitrary: n j p rule: less_induct)
  case less
  let ?c = "pr_clients p ! i"
  obtain c1 s1 where st: "ownStep envs n j i p = setClient i c1 s1 p" and "advances envs n j (pr_server p) ?c s1 c1"
    using ownStep_advances [OF less.prems(3)] by blast
  then consider (End) c0 where "c1 = endClient out c0" "s1 = s'" "cn' = cl_conn c0"
    | (More) "cl_result c1 = None" "todo c1 < todo ?c" "future envs (turn n j ?c c1) s1 c1 = (out, s', cn')"
    using less.prems(1) unfolding advances_def by auto
  then show ?case
  proof cases
    case (End c0)
    then show ?thesis using st by (intro exI [of _ 0] conjI exI [of _ c0]) (simp_all split: prod.split)
  next
    case More
    obtain n' j' where t: "turn n j ?c c1 = (n', j')" by fastforce
    obtain k c where k: "k \<le> todo c1" "rounds envs n' j' (Suc k) i (setClient i c1 s1 p) = setClient i (endClient out c) s' p" "cl_conn c = cn'"
      using less.hyps [of "setClient i c1 s1 p" n' j'] More less.prems(2) t by (auto simp del: rounds.simps)
    have "rounds envs n j (Suc (Suc k)) i p = setClient i (endClient out c) s' p"
      using k(2) unfolding rounds.simps(2) [of envs n] by (simp add: st t less.prems(2) del: rounds.simps)
    moreover have "Suc k \<le> todo ?c" using k(1) More(2) by simp
    ultimately show ?thesis using k(3) by blast
  qed
qed

section \<open>A process to try the theorems on\<close>

abbreviation demo_process :: "Server \<Rightarrow> process" where
  "demo_process s \<equiv> clientRound (demo_envs 0) 0 (startClient (conn_of (encodeCommand demo_set)) (newProcess s))"

lemma demo_process_reach: "proc_reach s 2 (demo_process s)"
proof -
  have "proc_step (newProcess s) (startClient (conn_of (encodeCommand demo_set)) (newProcess s))"
    by (intro connect [where room = None]) (simp_all add: crashed_def newProcess_def)
  moreover have "proc_step (startClient (conn_of (encodeCommand demo_set)) (newProcess s)) (demo_process s)"
    using iterates_rev by (intro round) (simp_all add: crashed_def newProcess_def startClient_def)
  ultimately show ?thesis using proc_reach.step [OF proc_reach.step [OF proc_reach.start]] by (simp add: numeral_2_eq_2)
qed

lemma clientRound_opened:
  assumes "i < length (pr_clients p)" "cl_fetch (pr_clients p ! i) = None"
  shows "map cl_opened (pr_clients (clientRound e i p)) = map cl_opened (pr_clients p)"
proof -
  obtain c s where "clientRound e i p = setClient i c s p" "cl_opened c = cl_opened (pr_clients p ! i)"
    by (cases rule: clientRound_cases [OF refl assms(2), where e = e]) blast+
  then show ?thesis using assms(1) by (simp add: setClient_def map_update list_update_same_conv)
qed

lemma demo_process_client:
  "map cl_opened (pr_clients (demo_process s)) = [conn_of (encodeCommand demo_set)]"
  using clientRound_opened [where i = 0 and e = "demo_envs 0"] by (simp add: startClient_def newProcess_def)

lemma demo_no_auth: "\<not> authenticates s (cn_in (conn_of (encodeCommand demo_set)))"
proof -
  have "ReadCommand \<lparr>in_data = encodeCommand demo_set, in_end = EndEOF\<rparr> = (Inr demo_set, \<lparr>in_data = [], in_end = EndEOF\<rparr>)"
    using ReadCommand_encoded [OF demo_set_wf, of "\<lparr>in_data = encodeCommand demo_set, in_end = EndEOF\<rparr>" "[]"]
      demo_fit(1) by (simp add: fitsBuffer_def)
  then show ?thesis by (simp add: authenticates_def newCommand_def)
qed

section \<open>Properties\<close>

text \<open>
  C5 (invariant).  Whatever any number of peers send and however their handlers and the sweeper
  interleave, the store of the process is one that method calls lead to, at most one call per step,
  and it stays within its memory budget.
\<close>

theorem process_linear:
  assumes "sane_config config" "srv_store s = New config" "proc_reach s n p"
  shows "\<exists>m\<le>n. reachable config m (srv_store (pr_server p))
    \<and> Store_MemoryBytes (srv_store (pr_server p))
        \<le> cf_Shards (normalizeConfig config) * perShardMemory (normalizeConfig config)"
proof -
  have "reachable config 0 (srv_store s)" by (simp add: assms(2) reachable_def run_none)
  from proc_reach_run [OF assms(3,1) this]
  obtain m where m: "reachable config m (srv_store (pr_server p))" "m \<le> n"
    by auto
  with store_memory(3) [OF assms(1) reachable_inv [OF assms(1) m(1)]] show ?thesis by (intro exI [of _ m]) auto
qed

theorem process_linear_witness:
  "\<exists>m\<le>2. reachable demo m (srv_store (pr_server (demo_process demo_server)))
    \<and> Store_MemoryBytes (srv_store (pr_server (demo_process demo_server))) \<le> 40"
proof -
  have "cf_Shards (normalizeConfig demo) * perShardMemory (normalizeConfig demo) = 40" by code_simp
  with process_linear [OF demo_sane _ demo_process_reach, of demo_server] show ?thesis by (auto simp: Server_New_def)
qed

text \<open>
  C6 (safety).  With a token configured, a peer that does not open with the token has received
  nothing but (the beginning of) one refusal, whatever the other connections do; and until some peer
  does open with it, the store is the empty store of the start.
\<close>

theorem process_auth:
  assumes "srv_authToken s \<noteq> []" "srv_store s = New config" "proc_reach s n p"
  shows "(\<forall>c\<in>set (pr_clients p). authenticates s (cn_in (cl_opened c)) \<or> refused (cn_out (cl_conn c)))
    \<and> ((\<forall>c\<in>set (pr_clients p). \<not> authenticates s (cn_in (cl_opened c))) \<longrightarrow> srv_store (pr_server p) = New config)"
  using proc_reach_gate [OF assms(3,1)] assms(2) by (auto simp: shut_out_def intruders_def list_all_iff)

theorem process_auth_witness:
  "srv_store (pr_server (demo_process (WithAuthToken ''t'' demo_server))) = New demo"
proof -
  let ?s = "WithAuthToken ''t'' demo_server"
  have "\<forall>c\<in>set (pr_clients (demo_process ?s)). \<not> authenticates ?s (cn_in (cl_opened c))"
    using demo_process_client [of ?s] demo_no_auth [of ?s] by auto
  with process_auth [OF _ _ demo_process_reach, of ?s demo] show ?thesis by (simp add: WithAuthToken_def Server_New_def)
qed

text \<open>
  C28 (termination).  Left alone, the handler of a new connection ends after at most one step more
  than twice the bytes the peer sends, and the process is then where the whole loop \<open>serveConn\<close> leads.
\<close>

theorem client_terminates:
  assumes "serveConn envs (pr_server p) cn = (out, s', cn')" "i = length (pr_clients p)"
  shows "\<exists>k\<le>Suc (2 * length (in_data (cn_in cn))). \<exists>c. rounds envs 0 0 k i (startClient cn p)
      = p\<lparr>pr_server := s', pr_clients := pr_clients p @ [c]\<rparr> \<and> cl_result c = Some out \<and> cl_conn c = cn'"
proof -
  let ?p = "startClient cn p"
  obtain cn1 where l: "serveConnLoop envs 0 (srv_authToken (pr_server p) = []) (pr_server p) cn = (out, s', cn1)"
    and cn': "cn' = (if out = Crashed then cn1 else cn1\<lparr>cn_out := snd (Flush (cn_out cn1))\<rparr>)"
    using serveConn_loop [OF assms(1)] .
  have f: "future envs (0, 0) (pr_server ?p) (pr_clients ?p ! i) = (out, s', cn1)" "i < length (pr_clients ?p)"
    "cl_result (pr_clients ?p ! i) = None" "todo (pr_clients ?p ! i) = 2 * length (in_data (cn_in cn))"
    using l by (simp_all add: startClient_def assms(2) future_def todo_def)
  obtain k c where k: "k \<le> 2 * length (in_data (cn_in cn))" "rounds envs 0 0 (Suc k) i ?p = setClient i (endClient out c) s' ?p" "cl_conn c = cn1"
    using rounds_future [OF f(1-3)] unfolding f(4) by blast
  have "cl_conn (endClient out c) = cn'" using cn' k(3) by (cases out) (simp_all add: endClient_def)
  moreover have "rounds envs 0 0 (Suc k) i ?p = p\<lparr>pr_server := s', pr_clients := pr_clients p @ [endClient out c]\<rparr>"
    using k(2) assms(2) by (simp add: startClient_def setClient_def del: rounds.simps)
  ultimately show ?thesis using k(1) by (intro exI [of _ "Suc k"] conjI exI [of _ "endClient out c"]) simp_all
qed

theorem client_terminates_witness:
  "\<exists>k\<le>Suc (2 * length (encodeCommand demo_get)). \<exists>c. cl_result c \<noteq> None
     \<and> pr_clients (rounds demo_envs 0 0 k 0 (startClient (conn_of (encodeCommand demo_get)) (newProcess demo_server))) = [c]"
proof -
  let ?r = "serveConn demo_envs (pr_server (newProcess demo_server)) (conn_of (encodeCommand demo_get))"
  have "?r = (fst ?r, fst (snd ?r), snd (snd ?r))" by simp
  from client_terminates [OF this, of 0] show ?thesis by (auto simp: newProcess_def)
qed



end
