(* ===== verification/Bench_Clients.thy ===== *)
theory Bench_Clients
  imports Process Go_Text
begin

text \<open>
  The text clients of \<open>internal/benchmark/clients.go\<close>: the MiniKV, Redis and Memcached clients that the
  load generator drives.  A client writes a request through a \<open>bufio.Writer\<close> and parses the answer;
  reader and writer are those of the theories Protocol and Server.  The bytes the service will send
  are the client's input; what a service answers is not assumed.
\<close>

section \<open>Clients\<close>

datatype client_error =
    CtxError
  | DeadlineError
  | DialError
  | WriteError
  | ReadError stream_end
  | UnexpectedEOF
  | NoCRLF string
  | ValueNoCRLF
  | BadReply string string
  | BadHeader string
  | BadSize string
  | BadTerminator string
  | ErrorResponse string
  | MakePanic

record textClient =
  tc_name :: string
  tc_in :: input
  tc_out :: writer
  tc_timeout :: duration
  tc_deadline :: "time option"
  tc_closed :: bool

text \<open>The connection is the system's; \<open>None\<close> if dialling fails.\<close>

definition dialTextClient :: "string \<Rightarrow> (input \<times> nat option) option \<Rightarrow> duration \<Rightarrow> client_error + textClient" where
  "dialTextClient name conn timeout =
     (case conn of
        None \<Rightarrow> Inl DialError
      | Some (inp, room) \<Rightarrow> Inr \<lparr>tc_name = name, tc_in = inp, tc_out = newWriter room, tc_timeout = timeout,
          tc_deadline = None, tc_closed = False\<rparr>)"

definition textClient_Close :: "textClient \<Rightarrow> textClient" where
  "textClient_Close c = c\<lparr>tc_closed := True\<rparr>"

text \<open>\<open>ctx.Err()\<close> is an argument; setting a deadline fails on a closed connection.\<close>

definition prepare :: "bool \<Rightarrow> time \<Rightarrow> textClient \<Rightarrow> client_error option \<times> textClient" where
  "prepare ctxErr now c =
     (if ctxErr then (Some CtxError, c)
      else if tc_timeout c = 0 then (None, c)
      else if tc_closed c then (Some DeadlineError, c)
      else (None, c\<lparr>tc_deadline := Some (now + tc_timeout c)\<rparr>))"

section \<open>Reading\<close>

definition readCRLFLine :: "input \<Rightarrow> (client_error + string) \<times> input" where
  "readCRLFLine inp =
     (let pre = takeWhile (\<lambda>c. c \<noteq> LF) (in_data inp); post = dropWhile (\<lambda>c. c \<noteq> LF) (in_data inp)
      in if post = [] then (Inl (ReadError (in_end inp)), inp\<lparr>in_data := []\<rparr>)
         else (if pre = [] \<or> last pre \<noteq> CR then Inl (NoCRLF (pre @ [LF])) else Inr (butlast pre),
               inp\<lparr>in_data := tl post\<rparr>))"

definition readSizedValue :: "int \<Rightarrow> input \<Rightarrow> (client_error + bytes) \<times> input" where
  "readSizedValue sz inp =
     (let n = go_int (sz + 2)
      in if n < 0 \<or> maxAlloc < n then (Inl MakePanic, inp)
         else if int (length (in_data inp)) < n
         then (Inl (if in_end inp = EndEOF \<and> in_data inp \<noteq> [] then UnexpectedEOF else ReadError (in_end inp)),
               inp\<lparr>in_data := []\<rparr>)
         else let v = take (nat n) (in_data inp); inp = inp\<lparr>in_data := drop (nat n) (in_data inp)\<rparr>
              in if v ! nat sz \<noteq> CR \<or> v ! nat (sz + 1) \<noteq> LF then (Inl ValueNoCRLF, inp)
                 else (Inr (take (nat sz) v), inp))"

text \<open>\<open>strconv.Atoi\<close> and the test for negative sizes.\<close>

definition readSize :: "string \<Rightarrow> string \<Rightarrow> client_error + int" where
  "readSize token shown =
     (case Atoi token of Inl _ \<Rightarrow> Inl (BadSize shown) | Inr n \<Rightarrow> if n < 0 then Inl (BadSize shown) else Inr n)"

text \<open>A value block and the closing line of a \<open>get\<close>.\<close>

definition readValueEnd :: "int \<Rightarrow> input \<Rightarrow> (client_error + bytes option) \<times> input" where
  "readValueEnd sz inp =
     (case readSizedValue sz inp of
        (Inl e, inp) \<Rightarrow> (Inl e, inp)
      | (Inr v, inp) \<Rightarrow>
          (case readCRLFLine inp of
             (Inl e, inp) \<Rightarrow> (Inl e, inp)
           | (Inr closing, inp) \<Rightarrow> (if closing \<noteq> ''END'' then Inl (BadTerminator closing) else Inr (Some v), inp)))"

definition readMiniKVGet :: "key \<Rightarrow> input \<Rightarrow> (client_error + bytes option) \<times> input" where
  "readMiniKVGet key inp =
     (case readCRLFLine inp of
        (Inl e, inp) \<Rightarrow> (Inl e, inp)
      | (Inr line, inp) \<Rightarrow>
          if line = ''END'' then (Inr None, inp)
          else let fs = Fields line
               in if length fs \<noteq> 3 \<or> fs ! 0 \<noteq> ''VALUE'' \<or> fs ! 1 \<noteq> key then (Inl (BadHeader line), inp)
                  else case readSize (fs ! 2) (fs ! 2) of
                         Inl e \<Rightarrow> (Inl e, inp)
                       | Inr sz \<Rightarrow> readValueEnd sz inp)"

definition readMemcachedGet :: "key \<Rightarrow> input \<Rightarrow> (client_error + bytes option) \<times> input" where
  "readMemcachedGet key inp =
     (case readCRLFLine inp of
        (Inl e, inp) \<Rightarrow> (Inl e, inp)
      | (Inr line, inp) \<Rightarrow>
          if line = ''END'' then (Inr None, inp)
          else let fs = Fields line
               in if length fs \<noteq> 4 \<or> fs ! 0 \<noteq> ''VALUE'' \<or> fs ! 1 \<noteq> key then (Inl (BadHeader line), inp)
                  else case readSize (fs ! 3) (fs ! 3) of
                         Inl e \<Rightarrow> (Inl e, inp)
                       | Inr sz \<Rightarrow> readValueEnd sz inp)"

definition readRedisBulkString :: "input \<Rightarrow> (client_error + bytes option) \<times> input" where
  "readRedisBulkString inp =
     (case readCRLFLine inp of
        (Inl e, inp) \<Rightarrow> (Inl e, inp)
      | (Inr line, inp) \<Rightarrow>
          if HasPrefix line ''-'' then (Inl (ErrorResponse line), inp)
          else if line = ''$-1'' then (Inr None, inp)
          else if \<not> HasPrefix line ''$'' then (Inl (BadHeader line), inp)
          else case readSize (tl line) line of
                 Inl e \<Rightarrow> (Inl e, inp)
               | Inr sz \<Rightarrow>
                   (case readSizedValue sz inp of
                      (Inl e, inp) \<Rightarrow> (Inl e, inp)
                    | (Inr v, inp) \<Rightarrow> (Inr (Some v), inp)))"

section \<open>Writing\<close>

text \<open>Writes in sequence, up to the first that fails; \<open>fmt.Fprintf\<close> makes one write of its text.\<close>

fun writeAll :: "bytes list \<Rightarrow> writer \<Rightarrow> bool \<times> writer" where
  "writeAll [] w = (False, w)"
| "writeAll (p # ps) w = (let (err, w) = writeBytes p w in if err then (True, w) else writeAll ps w)"

definition writeRESPArray :: "string list \<Rightarrow> writer \<Rightarrow> bool \<times> writer" where
  "writeRESPArray parts w =
     writeAll ((''*'' @ formatNat (length parts) @ [CR, LF])
       # map (\<lambda>part. ''$'' @ formatNat (length part) @ [CR, LF] @ part @ [CR, LF]) parts) w"

section \<open>Requests\<close>

text \<open>
  Every operation prepares the connection, writes its request, flushes, and reads the answer.
\<close>

definition request ::
  "bool \<Rightarrow> time \<Rightarrow> (writer \<Rightarrow> bool \<times> writer) \<Rightarrow> (input \<Rightarrow> (client_error + 'a) \<times> input) \<Rightarrow> textClient
     \<Rightarrow> (client_error + 'a) \<times> textClient" where
  "request ctxErr now put answer c =
     (case prepare ctxErr now c of
        (Some e, c) \<Rightarrow> (Inl e, c)
      | (None, c) \<Rightarrow>
          (let (err, w) = put (tc_out c)
           in if err then (Inl WriteError, c\<lparr>tc_out := w\<rparr>)
              else let (err, w) = Flush w
                   in if err then (Inl WriteError, c\<lparr>tc_out := w\<rparr>)
                      else let (r, inp) = answer (tc_in c) in (r, c\<lparr>tc_out := w, tc_in := inp\<rparr>)))"

definition expectLine :: "string \<Rightarrow> key \<Rightarrow> input \<Rightarrow> (client_error + unit) \<times> input" where
  "expectLine want key inp =
     (case readCRLFLine inp of
        (Inl e, inp) \<Rightarrow> (Inl e, inp)
      | (Inr line, inp) \<Rightarrow> (if line \<noteq> want then Inl (BadReply key line) else Inr (), inp))"

definition miniKV_Set :: "bool \<Rightarrow> time \<Rightarrow> key \<Rightarrow> bytes \<Rightarrow> textClient \<Rightarrow> (client_error + unit) \<times> textClient" where
  "miniKV_Set ctxErr now key v =
     request ctxErr now
       (writeAll [''set '' @ key @ '' '' @ formatNat (length v) @ [CR, LF], v, [CR, LF]])
       (expectLine ''STORED'' key)"

definition miniKV_Get :: "bool \<Rightarrow> time \<Rightarrow> key \<Rightarrow> textClient \<Rightarrow> (client_error + bytes option) \<times> textClient" where
  "miniKV_Get ctxErr now key = request ctxErr now (writeAll [''get '' @ key @ [CR, LF]]) (readMiniKVGet key)"

definition redis_Set :: "bool \<Rightarrow> time \<Rightarrow> key \<Rightarrow> bytes \<Rightarrow> textClient \<Rightarrow> (client_error + unit) \<times> textClient" where
  "redis_Set ctxErr now key v =
     request ctxErr now (writeRESPArray [''SET'', key, v]) (expectLine ''+OK'' key)"

definition redis_Get :: "bool \<Rightarrow> time \<Rightarrow> key \<Rightarrow> textClient \<Rightarrow> (client_error + bytes option) \<times> textClient" where
  "redis_Get ctxErr now key = request ctxErr now (writeRESPArray [''GET'', key]) readRedisBulkString"

definition memcached_Set :: "bool \<Rightarrow> time \<Rightarrow> key \<Rightarrow> bytes \<Rightarrow> textClient \<Rightarrow> (client_error + unit) \<times> textClient" where
  "memcached_Set ctxErr now key v =
     request ctxErr now
       (writeAll [''set '' @ key @ '' 0 0 '' @ formatNat (length v) @ [CR, LF], v, [CR, LF]])
       (expectLine ''STORED'' key)"

definition memcached_Get :: "bool \<Rightarrow> time \<Rightarrow> key \<Rightarrow> textClient \<Rightarrow> (client_error + bytes option) \<times> textClient" where
  "memcached_Get ctxErr now key = request ctxErr now (writeAll [''get '' @ key @ [CR, LF]]) (readMemcachedGet key)"

end
