(* ===== verification/Bench.thy ===== *)
theory Bench
  imports Bench_Clients Ops
begin

text \<open>
  The load generator: the statistics and the runner of \<open>internal/benchmark\<close> and the command
  \<open>cmd/minikv-bench\<close>.  The runner is generic in its clients: the interface \<open>Client\<close> is the arguments
  \<open>name\<close>, \<open>put\<close> and \<open>get\<close> over a type of client states.  Every worker owns one client, so the states of
  the workers are independent and their interleaving is immaterial; the time that an operation or a
  phase takes comes with its result.
\<close>

section \<open>Statistics\<close>

record Summary =
  sm_Count :: int
  sm_Min :: duration
  sm_Mean :: duration
  sm_P50 :: duration
  sm_P95 :: duration
  sm_Max :: duration
  sm_OpsPerSec :: rat

definition percentile :: "duration list \<Rightarrow> rat \<Rightarrow> duration" where
  "percentile ss p =
     (let n = int (length ss);
          index = \<lceil>fl (fl (p / 100) * fl (of_int n))\<rceil> - 1;
          index = (if index < 0 then 0 else index);
          index = (if n \<le> index then n - 1 else index)
      in ss ! nat index)"

text \<open>Integer division truncates.\<close>

definition quotDuration :: "duration \<Rightarrow> int \<Rightarrow> duration" where
  "quotDuration d n = sgn d * (\<bar>d\<bar> div n)"

definition Summarize :: "duration list \<Rightarrow> duration \<Rightarrow> Summary" where
  "Summarize samples wallClock =
     (if samples = [] then
        \<lparr>sm_Count = 0, sm_Min = 0, sm_Mean = 0, sm_P50 = 0, sm_P95 = 0, sm_Max = 0, sm_OpsPerSec = 0\<rparr>
      else
        let ss = sort samples;
            tot = foldl (\<lambda>tot sample. go_int (tot + sample)) 0 ss;
            opsPerSec = (if 0 < wallClock
              then fl (fl (of_int (int (length ss))) / durationSeconds wallClock) else 0)
        in \<lparr>sm_Count = int (length ss), sm_Min = ss ! 0,
            sm_Mean = quotDuration tot (int (length ss)),
            sm_P50 = percentile ss 50, sm_P95 = percentile ss 95,
            sm_Max = ss ! (length ss - 1), sm_OpsPerSec = opsPerSec\<rparr>)"

section \<open>Workloads\<close>

record Workload =
  wl_Runs :: int
  wl_Keys :: int
  wl_ValueBytes :: int
  wl_KeyPrefix :: string
  wl_Concurrency :: int

record Result =
  rl_Service :: string
  rl_Workload :: string
  rl_Summary :: Summary

datatype run_phase = PhaseWrite | PhaseRead

datatype 'e run_error =
    RunsNotPositive
  | KeysNotPositive
  | ValueNotPositive
  | ConcurrencyExceeds int int
  | DialFailed nat 'e
  | OpFailed string run_phase int int 'e
  | KeyMissing string int int
  | ValueMismatch string int int
  | MakesliceError

definition checkWorkload :: "Workload \<Rightarrow> 'e run_error + Workload" where
  "checkWorkload w =
     (if wl_Runs w \<le> 0 then Inl RunsNotPositive
      else if wl_Keys w \<le> 0 then Inl KeysNotPositive
      else if wl_ValueBytes w \<le> 0 then Inl ValueNotPositive
      else let w = (if wl_KeyPrefix w = [] then w\<lparr>wl_KeyPrefix := ''minikv-bench''\<rparr> else w);
               w = (if wl_Concurrency w \<le> 0 then w\<lparr>wl_Concurrency := 1\<rparr> else w)
           in if wl_Keys w < wl_Concurrency w then Inl (ConcurrencyExceeds (wl_Concurrency w) (wl_Keys w))
              else Inr w)"

definition workerSlice :: "int \<Rightarrow> int \<Rightarrow> int \<Rightarrow> int \<times> int" where
  "workerSlice tot concurrency worker =
     (let base = tot div concurrency; extra = tot mod concurrency;
          start = worker * base + min worker extra;
          width = (if worker < extra then base + 1 else base)
      in (start, start + width))"

definition workloadKey :: "string \<Rightarrow> int \<Rightarrow> int \<Rightarrow> key" where
  "workloadKey pre rn i = pre @ '':'' @ formatInt rn @ '':'' @ formatInt i"

section \<open>The runner\<close>

text \<open>What a client does: the result, the time it took, and the client afterwards.\<close>

type_synonym ('e, 'c) set_op = "key \<Rightarrow> bytes \<Rightarrow> 'c \<Rightarrow> ('e + unit) \<times> duration \<times> 'c"
type_synonym ('e, 'c) get_op = "key \<Rightarrow> 'c \<Rightarrow> ('e + bytes option) \<times> duration \<times> 'c"

definition workerOp ::
  "('c \<Rightarrow> string) \<Rightarrow> ('e, 'c) set_op \<Rightarrow> ('e, 'c) get_op \<Rightarrow> run_phase \<Rightarrow> int \<Rightarrow> int \<Rightarrow> key \<Rightarrow> bytes \<Rightarrow> 'c
     \<Rightarrow> ('e run_error + duration) \<times> 'c" where
  "workerOp name put get p rn i key value c =
     (case p of
        PhaseWrite \<Rightarrow>
          (case put key value c of
             (Inl e, _, c) \<Rightarrow> (Inl (OpFailed (name c) p (rn + 1) (i + 1) e), c)
           | (Inr _, d, c) \<Rightarrow> (Inr d, c))
      | PhaseRead \<Rightarrow>
          (case get key c of
             (Inl e, _, c) \<Rightarrow> (Inl (OpFailed (name c) p (rn + 1) (i + 1) e), c)
           | (Inr None, _, c) \<Rightarrow> (Inl (KeyMissing (name c) (rn + 1) (i + 1)), c)
           | (Inr (Some v), d, c) \<Rightarrow>
               if v \<noteq> value then (Inl (ValueMismatch (name c) (rn + 1) (i + 1)), c) else (Inr d, c)))"

text \<open>A worker's loop over the indices of its slice.\<close>

fun workerLoop :: "(int \<Rightarrow> 'c \<Rightarrow> ('e run_error + duration) \<times> 'c) \<Rightarrow> int list \<Rightarrow> duration list \<Rightarrow> 'c
    \<Rightarrow> ('e run_error + duration list) \<times> 'c" where
  "workerLoop f [] latencies c = (Inr latencies, c)"
| "workerLoop f (i # is) latencies c =
     (case f i c of
        (Inl e, c) \<Rightarrow> (Inl e, c)
      | (Inr d, c) \<Rightarrow> workerLoop f is (latencies @ [d]) c)"

text \<open>The first error in the order of the workers, or all latencies in that order.\<close>

fun mergeWorkers :: "('e run_error + duration list) list \<Rightarrow> 'e run_error + duration list" where
  "mergeWorkers [] = Inr []"
| "mergeWorkers (Inl e # rs) = Inl e"
| "mergeWorkers (Inr ls # rs) = (case mergeWorkers rs of Inl e \<Rightarrow> Inl e | Inr ms \<Rightarrow> Inr (ls @ ms))"

definition runPhase ::
  "('c \<Rightarrow> string) \<Rightarrow> ('e, 'c) set_op \<Rightarrow> ('e, 'c) get_op \<Rightarrow> Workload \<Rightarrow> int \<Rightarrow> bytes \<Rightarrow> run_phase \<Rightarrow> 'c list
     \<Rightarrow> ('e run_error + duration list) \<times> 'c list" where
  "runPhase name put get wl rn value p clients =
     (let concurrency = int (length clients);
          work = (\<lambda>w. let (start, end') = workerSlice (wl_Keys wl) concurrency (int w)
            in workerLoop (\<lambda>i. workerOp name put get p rn i (workloadKey (wl_KeyPrefix wl) rn i) value)
                 [start..end' - 1] [] (clients ! w));
          results = map work [0..<length clients]
      in (mergeWorkers (map fst results), map snd results))"

definition closeAll :: "('c \<Rightarrow> 'c) \<Rightarrow> 'c list \<Rightarrow> 'c list" where
  "closeAll close clients = map close clients"

text \<open>Dialling stops at the first failure, closing the clients dialled so far.\<close>

fun dialAll :: "(nat \<Rightarrow> 'e + 'c) \<Rightarrow> ('c \<Rightarrow> 'c) \<Rightarrow> nat list \<Rightarrow> 'c list \<Rightarrow> 'e run_error option \<times> 'c list" where
  "dialAll dial close [] clients = (None, clients)"
| "dialAll dial close (i # is) clients =
     (case dial i of
        Inl e \<Rightarrow> (Some (DialFailed i e), closeAll close clients)
      | Inr c \<Rightarrow> dialAll dial close is (clients @ [c]))"

fun runLoop ::
  "(int \<Rightarrow> run_phase \<Rightarrow> 'c list \<Rightarrow> ('e run_error + duration list) \<times> 'c list) \<Rightarrow> int list
     \<Rightarrow> duration list \<Rightarrow> duration list \<Rightarrow> 'c list \<Rightarrow> ('e run_error + duration list \<times> duration list) \<times> 'c list" where
  "runLoop phase [] writes reads clients = (Inr (writes, reads), clients)"
| "runLoop phase (rn # runs) writes reads clients =
     (case phase rn PhaseWrite clients of
        (Inl e, clients) \<Rightarrow> (Inl e, clients)
      | (Inr ws, clients) \<Rightarrow>
          (case phase rn PhaseRead clients of
             (Inl e, clients) \<Rightarrow> (Inl e, clients)
           | (Inr rs, clients) \<Rightarrow> runLoop phase runs (writes @ ws) (reads @ rs) clients))"

text \<open>
  \<open>make([]time.Duration, 0, totalOps)\<close> and \<open>bytes.Repeat\<close> panic on sizes that cannot be allocated; a
  duration has eight bytes.
\<close>

definition allocates :: "Workload \<Rightarrow> bool" where
  "allocates wl \<longleftrightarrow> wl_ValueBytes wl \<le> maxAlloc
     \<and> 0 \<le> go_int (wl_Runs wl * wl_Keys wl) \<and> 8 * go_int (wl_Runs wl * wl_Keys wl) \<le> maxAlloc"

text \<open>
  \<open>wall p\<close> is the sum of the wall-clock times of a phase.  The result comes with the clients that were
  dialled, as \<open>defer closeAll(clients)\<close> leaves them.
\<close>

definition Run ::
  "('c \<Rightarrow> string) \<Rightarrow> ('e, 'c) set_op \<Rightarrow> ('e, 'c) get_op \<Rightarrow> (nat \<Rightarrow> 'e + 'c) \<Rightarrow> ('c \<Rightarrow> 'c) \<Rightarrow> (run_phase \<Rightarrow> duration)
     \<Rightarrow> Workload \<Rightarrow> ('e run_error + Result list) \<times> 'c list" where
  "Run name put get dial close wall wl =
     (case checkWorkload wl of
        Inl e \<Rightarrow> (Inl e, [])
      | Inr wl \<Rightarrow>
          (case dialAll dial close [0..<nat (wl_Concurrency wl)] [] of
             (Some e, clients) \<Rightarrow> (Inl e, clients)
           | (None, clients) \<Rightarrow>
               if \<not> allocates wl then (Inl MakesliceError, closeAll close clients)
               else
                 let value = replicate (nat (wl_ValueBytes wl)) (CHR ''x'')
                 in case runLoop (\<lambda>rn. runPhase name put get wl rn value) [0..wl_Runs wl - 1] [] [] clients of
                      (Inl e, clients) \<Rightarrow> (Inl e, closeAll close clients)
                    | (Inr (writes, reads), clients) \<Rightarrow>
                        (Inr [\<lparr>rl_Service = name (clients ! 0), rl_Workload = ''write'',
                               rl_Summary = Summarize writes (wall PhaseWrite)\<rparr>,
                              \<lparr>rl_Service = name (clients ! 0), rl_Workload = ''read'',
                               rl_Summary = Summarize reads (wall PhaseRead)\<rparr>],
                         closeAll close clients)))"

section \<open>The command\<close>

text \<open>\<open>strings.Split\<close> with a separator of one byte.\<close>

fun Split :: "char \<Rightarrow> string \<Rightarrow> string list" where
  "Split sep [] = [[]]"
| "Split sep (c # s) = (if c = sep then [] # Split sep s else (c # hd (Split sep s)) # tl (Split sep s))"

datatype select_error = UnknownService string | NoService

fun selectLoop :: "string list \<Rightarrow> (string \<rightharpoonup> 's) \<Rightarrow> 's list \<Rightarrow> select_error + 's list" where
  "selectLoop [] registry selected = Inr selected"
| "selectLoop (token # tokens) registry selected =
     (let name = TrimSpace token
      in if name = [] then selectLoop tokens registry selected
         else case registry name of
                None \<Rightarrow> Inl (UnknownService name)
              | Some svc \<Rightarrow> selectLoop tokens registry (selected @ [svc]))"

definition selectServices :: "string \<Rightarrow> (string \<rightharpoonup> 's) \<Rightarrow> select_error + 's list" where
  "selectServices raw registry =
     (case selectLoop (Split (CHR '','') raw) registry [] of
        Inl e \<Rightarrow> Inl e
      | Inr selected \<Rightarrow> if selected = [] then Inl NoService else Inr selected)"

definition formatDuration :: "duration \<Rightarrow> string" where
  "formatDuration d = fmtFixed 3 (fl (fl (of_int (quotDuration d 1000)) / 1000)) @ ''ms''"

definition printResult :: "Result \<Rightarrow> string" where
  "printResult result =
     (let summary = rl_Summary result; tab = [CHR 0x09]
      in rl_Service result @ tab @ rl_Workload result @ tab @ formatInt (sm_Count summary) @ tab
         @ formatDuration (sm_Min summary) @ tab @ formatDuration (sm_Mean summary) @ tab
         @ formatDuration (sm_P50 summary) @ tab @ formatDuration (sm_P95 summary) @ tab
         @ formatDuration (sm_Max summary) @ tab @ fmtFixed 2 (sm_OpsPerSec summary) @ [LF])"

datatype dialer = DialMiniKV | DialRedis | DialMemcached

record service =
  sc_name :: string
  sc_addr :: string
  sc_dial :: dialer

definition registry :: "string \<Rightarrow> string \<Rightarrow> string \<Rightarrow> string \<rightharpoonup> service" where
  "registry minikvAddr redisAddr memcachedAddr =
     [''minikv'' \<mapsto> \<lparr>sc_name = ''minikv'', sc_addr = minikvAddr, sc_dial = DialMiniKV\<rparr>,
      ''redis'' \<mapsto> \<lparr>sc_name = ''redis'', sc_addr = redisAddr, sc_dial = DialRedis\<rparr>,
      ''memcached'' \<mapsto> \<lparr>sc_name = ''memcached'', sc_addr = memcachedAddr, sc_dial = DialMemcached\<rparr>]"

text \<open>What \<open>main\<close> prints, and whether it returns instead of exiting with status 1.\<close>

fun benchLoop :: "('s \<Rightarrow> 'e run_error + Result list) \<Rightarrow> 's list \<Rightarrow> string \<Rightarrow> string \<times> bool" where
  "benchLoop bench [] out = (out, True)"
| "benchLoop bench (svc # svcs) out =
     (case bench svc of
        Inl e \<Rightarrow> (out, False)
      | Inr results \<Rightarrow> benchLoop bench svcs (out @ concat (map printResult results)))"

definition tableHeader :: string where
  "tableHeader = concat (map (\<lambda>s. s @ [CHR 0x09])
     [''service'', ''workload'', ''count'', ''min'', ''mean'', ''p50'', ''p95'', ''max'']) @ ''ops/sec'' @ [LF]"

definition benchMain :: "string \<Rightarrow> (string \<rightharpoonup> 's) \<Rightarrow> ('s \<Rightarrow> 'e run_error + Result list) \<Rightarrow> string \<times> bool" where
  "benchMain services reg bench =
     (case selectServices services reg of
        Inl e \<Rightarrow> ([], False)
      | Inr selected \<Rightarrow> benchLoop bench selected tableHeader)"

end
