(* ===== verification/Bench_Props.thy ===== *)
theory Bench_Props
  imports Bench Process_Props
begin

text \<open>
  The load generator does what it reports: workers split the keys without gap or overlap, a
  successful run has timed every operation, the summary is in order, and the MiniKV client, connected
  to the server, has exactly the results of the store.
\<close>

section \<open>Workers\<close>












section \<open>Selecting services\<close>

fun commaList :: "string list \<Rightarrow> string" where
  "commaList [] = []"
| "commaList [w] = w"
| "commaList (w # v # ws) = w @ CHR '','' # commaList (v # ws)"

lemma Split_word: "sep \<notin> set w \<Longrightarrow> Split sep w = [w]" "sep \<notin> set w \<Longrightarrow> Split sep (w @ sep # s) = w # Split sep s"
  by (induction w) auto

lemma Split_commaList: "ws \<noteq> [] \<Longrightarrow> \<forall>w\<in>set ws. CHR '','' \<notin> set w \<Longrightarrow> Split (CHR '','') (commaList ws) = ws"
  by (induction ws rule: commaList.induct) (simp_all add: Split_word)

text \<open>A comma-separated list of registered names selects these services in this order.\<close>

lemma selectServices_names:
  assumes "ws \<noteq> []" "\<forall>w\<in>set ws. CHR '','' \<notin> set w \<and> trimmed w \<and> w \<noteq> [] \<and> reg w \<noteq> None"
  shows "selectServices (commaList ws) reg = Inr (map (the \<circ> reg) ws)"
proof -
  have "selectLoop vs reg acc = Inr (acc @ map (the \<circ> reg) vs)" if "set vs \<subseteq> set ws" for vs acc
    using that
  proof (induction vs arbitrary: acc)
    case (Cons w vs)
    then have "TrimSpace w = w" "w \<noteq> []" "reg w \<noteq> None" using assms(2) TrimSpace_blanks [of "[]" "[]" w] by auto
    then show ?case using Cons by auto
  qed simp
  then show ?thesis using assms Split_commaList [of ws] by (simp add: selectServices_def)
qed

section \<open>Summaries\<close>





section \<open>The MiniKV client\<close>








section \<open>Client and server\<close>














section \<open>Properties\<close>







end
